theory Spec2Isabelle
  imports Main "HOL-Library.Word"
begin

unbundle bit_operations_syntax

section \<open>Bytes, C strings and buffers\<close>

text \<open>
  A C \<open>char\<close> is a byte and an \<open>unsigned int\<close> is a 32-bit word. File contents,
  the line buffer and the memory of \<open>*out_timestamp\<close> are byte lists; file names and
  command-line arguments are strings.
\<close>

type_synonym byte = "8 word"
type_synonym uint = "32 word"

definition bytes_of :: "string \<Rightarrow> byte list" where
  "bytes_of s = map (\<lambda>c. of_nat (of_char c)) s"

text \<open>\<open>strlen\<close> and \<open>strchr\<close> see a buffer up to its first NUL byte. The program only
  tests the pointer that \<open>strchr\<close> returns against \<open>NULL\<close>, so the model returns
  whether the character occurs.\<close>

definition strlen :: "byte list \<Rightarrow> nat" where
  "strlen s = length (takeWhile (\<lambda>b. b \<noteq> 0) s)"

definition strchr :: "byte list \<Rightarrow> byte \<Rightarrow> bool" where
  "strchr s c = (c \<in> set (takeWhile (\<lambda>b. b \<noteq> 0) s))"

fun memcmp :: "byte list \<Rightarrow> byte list \<Rightarrow> nat \<Rightarrow> int" where
  "memcmp (a # as) (b # bs) n =
     (if n = 0 then 0 else if a = b then memcmp as bs (n - 1) else if a < b then - 1 else 1)"
| "memcmp _ _ _ = 0"

text \<open>An assignment \<open>buf[i] = v\<close>. Outside the buffer the C program has no defined
  behaviour; the model makes that case visible as \<open>None\<close>.\<close>

definition store :: "byte list \<Rightarrow> nat \<Rightarrow> byte \<Rightarrow> byte list option" where
  "store buf i v = (if i < length buf then Some (buf[i := v]) else None)"

section \<open>Streams\<close>

text \<open>
  A \<open>FILE*\<close> opened for reading: the bytes of the file, the read position, and whether
  the stream can be repositioned (a pipe or terminal cannot).
\<close>

record FILE =
  bytes :: "byte list"
  offset :: nat
  seekable :: bool

text \<open>\<open>fread(buf, 1, n, file)\<close>: the number of bytes read, the buffer with those bytes
  at its start, and the advanced stream. A short read leaves the rest of the buffer as it
  was.\<close>

definition fread :: "byte list \<Rightarrow> nat \<Rightarrow> FILE \<Rightarrow> nat \<times> byte list \<times> FILE" where
  "fread buf n file =
     (case take n (drop (offset file) (bytes file)) of
        bs \<Rightarrow> (length bs, bs @ drop (length bs) buf,
               file\<lparr>offset := offset file + length bs\<rparr>))"

text \<open>\<open>fseek(file, off, SEEK_SET)\<close>: \<open>None\<close> is the non-zero return.\<close>

definition fseek_set :: "FILE \<Rightarrow> nat \<Rightarrow> FILE option" where
  "fseek_set file off = (if seekable file then Some (file\<lparr>offset := off\<rparr>) else None)"

text \<open>\<open>fgets(line, n, file)\<close> reads at most \<open>n - 1\<close> bytes and stops after a newline or
  at the end of the file; it stores them followed by a NUL byte. With nothing left to
  read it returns \<open>NULL\<close> (\<open>None\<close>) and leaves the buffer alone.\<close>

fun fgets_bytes :: "nat \<Rightarrow> byte list \<Rightarrow> byte list" where
  "fgets_bytes k [] = []"
| "fgets_bytes k (b # bs) =
     (if k = 0 then [] else if b = 10 then [b] else b # fgets_bytes (k - 1) bs)"

definition fgets :: "byte list \<Rightarrow> nat \<Rightarrow> FILE \<Rightarrow> (byte list \<times> FILE) option" where
  "fgets line n file =
     (case fgets_bytes (n - 1) (drop (offset file) (bytes file)) of
        [] \<Rightarrow> None
      | b # bs \<Rightarrow> Some ((b # bs) @ [0] @ drop (length (b # bs) + 1) line,
                       file\<lparr>offset := offset file + length (b # bs)\<rparr>))"

section \<open>The base64 step decoder of GLib\<close>

text \<open>
  \<open>g_base64_decode_step\<close> belongs to GLib, which the program links against; the model
  follows \<open>glib/gbase64.c\<close>. \<open>mime_base64_rank\<close> is its table: the value of a character
  of the base64 alphabet, 0 for the padding character \<open>=\<close>, and \<open>0xff\<close> for every other
  byte, which the decoder skips.
\<close>

definition mime_base64_rank :: "byte \<Rightarrow> byte" where
  "mime_base64_rank c =
     (if 65 \<le> c \<and> c \<le> 90 then c - 65
      else if 97 \<le> c \<and> c \<le> 122 then c - 71
      else if 48 \<le> c \<and> c \<le> 57 then c + 4
      else if c = 43 then 62
      else if c = 47 then 63
      else if c = 61 then 0
      else 255)"

text \<open>One round of the decoder's loop. Its variables are the accumulator \<open>v\<close>, the
  count \<open>i\<close> of characters in the current group, the last two characters \<open>last[0]\<close>
  and \<open>last[1]\<close>, and the bytes written through \<open>outptr\<close> so far. The accumulator is
  an \<open>unsigned int\<close>, so the shift drops what leaves its 32 bits, and each output is
  cut to a byte.\<close>

type_synonym decoder = "uint \<times> int \<times> byte \<times> byte \<times> byte list"

fun decode_char :: "decoder \<Rightarrow> byte \<Rightarrow> decoder" where
  "decode_char (v, i, last0, last1, outs) c =
     (if mime_base64_rank c \<noteq> 255 then
        (if i + 1 = 4 then
           (push_bit 6 v OR ucast (mime_base64_rank c), 0, c, last0,
            outs @ [ucast (drop_bit 16 (push_bit 6 v OR ucast (mime_base64_rank c)))]
              @ (if last0 \<noteq> 61
                 then [ucast (drop_bit 8 (push_bit 6 v OR ucast (mime_base64_rank c)))]
                 else [])
              @ (if c \<noteq> 61 then [ucast (push_bit 6 v OR ucast (mime_base64_rank c))]
                 else []))
         else (push_bit 6 v OR ucast (mime_base64_rank c), i + 1, c, last0, outs))
      else (v, i, last0, last1, outs))"

text \<open>\<open>g_base64_decode_step(in, len, out, &state, &save)\<close>: the number of bytes
  written, the output buffer, and the new \<open>state\<close> and \<open>save\<close>. A negative \<open>state\<close>
  records that the previous call ended on a padding character.\<close>

definition g_base64_decode_step ::
  "byte list \<Rightarrow> nat \<Rightarrow> byte list \<Rightarrow> int \<Rightarrow> uint \<Rightarrow> nat \<times> byte list \<times> int \<times> uint" where
  "g_base64_decode_step inp len out state save =
     (if len = 0 then (0, out, state, save)
      else
        (case foldl decode_char
                (if state < 0 then (save, - state, 61, 0, []) else (save, state, 0, 0, []))
                (take len inp) of
           (v, i, last0, last1, outs) \<Rightarrow>
             (length outs, outs @ drop (length outs) out,
              if last0 = 61 then - i else i, v)))"

text \<open>The accumulator after four more characters of ranks \<open>s0\<close> to \<open>s3\<close> (used
  in the proofs about the decoder).\<close>

definition group_acc :: "uint \<Rightarrow> byte \<Rightarrow> byte \<Rightarrow> byte \<Rightarrow> byte \<Rightarrow> uint" where
  "group_acc v s0 s1 s2 s3 =
     push_bit 6 (push_bit 6 (push_bit 6 (push_bit 6 v OR ucast s0) OR ucast s1) OR ucast s2)
       OR ucast s3"

section \<open>The timestamp extractors\<close>

text \<open>
  Each extractor returns its \<open>int\<close> result, the four bytes of \<open>*out_timestamp\<close> and
  the stream.
\<close>

definition pgp_key_raw_extract_timestamp ::
  "FILE \<Rightarrow> byte list \<Rightarrow> int \<times> byte list \<times> FILE" where
  "pgp_key_raw_extract_timestamp file out_timestamp =
     (case fseek_set file 3 of
        Some file1 \<Rightarrow>
          (case fread out_timestamp 4 file1 of
             (n, out1, file2) \<Rightarrow> if n < 4 then (1, out1, file2) else (0, out1, file2))
      | None \<Rightarrow> (1, out_timestamp, file))"

text \<open>
  What \<open>pgp_key_dearmor_extract_timestamp\<close> does with the line it selects. Through
  \<open>timestamp_base64_pos = line + 4\<close> it assigns \<open>=\<close>, \<open>=\<close> and NUL at indices 6, 7
  and 8 (\<open>dearmor_pad\<close>: the buffer \<open>line\<close> after the three assignments). The
  assignments are checked stores: one outside the buffer would end the model with
  \<open>None\<close>. Then it decodes the string at \<open>timestamp_base64_pos\<close> into
  \<open>*out_timestamp\<close>, ignoring the number of bytes written (\<open>dearmor_decode\<close>).
\<close>

definition dearmor_pad :: "byte list \<Rightarrow> byte list option" where
  "dearmor_pad line =
     Option.bind (store line (4 + 6) 61) (\<lambda>line1.
     Option.bind (store line1 (4 + 7) 61) (\<lambda>line2.
       store line2 (4 + 8) 0))"

definition dearmor_decode :: "byte list \<Rightarrow> byte list \<Rightarrow> byte list option" where
  "dearmor_decode line out_timestamp =
     map_option
       (\<lambda>line3. fst (snd (g_base64_decode_step (drop 4 line3) (strlen (drop 4 line3))
                              out_timestamp 0 0)))
       (dearmor_pad line)"

text \<open>
  The loop over the lines that \<open>fgets\<close> delivers into the 67-byte buffer \<open>line\<close>;
  each \<open>continue\<close> is a recursive call, and the loop ends when \<open>fgets\<close> returns
  \<open>NULL\<close> (result 1) or at the first line that passes both tests (result 0).
\<close>

function dearmor_loop ::
  "byte list \<Rightarrow> FILE \<Rightarrow> byte list \<Rightarrow> (int \<times> byte list \<times> FILE) option" where
  "dearmor_loop line file out_timestamp =
     (case fgets line 67 file of
        None \<Rightarrow> Some (1, out_timestamp, file)
      | Some (line1, file1) \<Rightarrow>
          if strchr line1 45 \<or> strchr line1 58 then dearmor_loop line1 file1 out_timestamp
          else if strlen line1 \<noteq> 67 - 2 then dearmor_loop line1 file1 out_timestamp
          else map_option (\<lambda>out1. (0, out1, file1)) (dearmor_decode line1 out_timestamp))"
  by pat_completeness auto

definition pgp_key_dearmor_extract_timestamp ::
  "FILE \<Rightarrow> byte list \<Rightarrow> (int \<times> byte list \<times> FILE) option" where
  "pgp_key_dearmor_extract_timestamp file out_timestamp =
     dearmor_loop (replicate 67 0) file out_timestamp"

text \<open>
  The lines the loop sees: all the buffers that successive calls
  \<open>fgets(line, sizeof(line), file)\<close> deliver until \<open>fgets\<close> returns \<open>NULL\<close>, each
  with the stream after the call. A line of the loop is therefore at most 66 bytes of
  the input, ends after a newline if one came within them, and counts as a string up to
  its first NUL byte.
\<close>

function fgets_lines :: "byte list \<Rightarrow> FILE \<Rightarrow> (byte list \<times> FILE) list" where
  "fgets_lines line file =
     (case fgets line 67 file of
        None \<Rightarrow> []
      | Some (line1, file1) \<Rightarrow> (line1, file1) # fgets_lines line1 file1)"
  by pat_completeness auto

text \<open>The two tests of the loop body, both passed.\<close>

definition qualifies :: "byte list \<Rightarrow> bool" where
  "qualifies line = (\<not> (strchr line 45 \<or> strchr line 58) \<and> \<not> strlen line \<noteq> 67 - 2)"

section \<open>Byte order\<close>

text \<open>
  An \<open>unsigned int\<close> lies in memory as four bytes, in the order of the host
  (\<open>le\<close>: little-endian). \<open>ntohl\<close> reads the memory image of its argument in network
  order: the identity on a big-endian host, a byte swap on a little-endian one.
\<close>

definition load_be :: "byte list \<Rightarrow> uint" where
  "load_be bs = foldl (\<lambda>w b. push_bit 8 w OR ucast b) 0 bs"

definition store_be :: "uint \<Rightarrow> byte list" where
  "store_be w = [ucast (drop_bit 24 w), ucast (drop_bit 16 w), ucast (drop_bit 8 w), ucast w]"

definition store_uint :: "bool \<Rightarrow> uint \<Rightarrow> byte list" where
  "store_uint le w = (if le then rev (store_be w) else store_be w)"

definition load_uint :: "bool \<Rightarrow> byte list \<Rightarrow> uint" where
  "load_uint le bs = load_be (if le then rev bs else bs)"

definition ntohl :: "bool \<Rightarrow> uint \<Rightarrow> uint" where
  "ntohl le w = load_be (store_uint le w)"

section \<open>The file system\<close>

text \<open>
  Path names are keys as the program builds them. A node is a directory, a regular file
  or a special file (a pipe or a device), which has the bytes that reading it delivers,
  reports size 0, and can be repositioned or not: \<open>fseek\<close> fails on a pipe and
  succeeds on a device such as \<open>/dev/zero\<close>. \<open>unreadable\<close> are
  the paths that \<open>fopen\<close> is refused, \<open>unmovable\<close> the pairs that \<open>rename\<close> is refused
  (another device, a missing or protected target directory), and \<open>listing\<close> gives the
  names that \<open>readdir\<close> returns for a directory that \<open>opendir\<close> can open, in the order
  of the system.
\<close>

datatype node = Dir | Reg "byte list" | Special "byte list" bool

record filesystem =
  nodes :: "string \<rightharpoonup> node"
  unreadable :: "string set"
  unmovable :: "(string \<times> string) set"
  listing :: "string \<rightharpoonup> string list"

record stat_buf =
  st_is_dir :: bool
  st_size :: nat

definition stat :: "filesystem \<Rightarrow> string \<Rightarrow> stat_buf option" where
  "stat fs path =
     (case nodes fs path of
        None \<Rightarrow> None
      | Some Dir \<Rightarrow> Some \<lparr>st_is_dir = True, st_size = 0\<rparr>
      | Some (Reg bs) \<Rightarrow> Some \<lparr>st_is_dir = False, st_size = length bs\<rparr>
      | Some (Special bs sk) \<Rightarrow> Some \<lparr>st_is_dir = False, st_size = 0\<rparr>)"

text \<open>\<open>fopen(path, "rb")\<close>. A directory opens, as on Linux, and every read from it
  fails.\<close>

definition fopen :: "filesystem \<Rightarrow> string \<Rightarrow> FILE option" where
  "fopen fs path =
     (if path \<in> unreadable fs then None
      else case nodes fs path of
        None \<Rightarrow> None
      | Some Dir \<Rightarrow> Some \<lparr>bytes = [], offset = 0, seekable = True\<rparr>
      | Some (Reg bs) \<Rightarrow> Some \<lparr>bytes = bs, offset = 0, seekable = True\<rparr>
      | Some (Special bs sk) \<Rightarrow> Some \<lparr>bytes = bs, offset = 0, seekable = sk\<rparr>)"

definition opendir :: "filesystem \<Rightarrow> string \<Rightarrow> string list option" where
  "opendir fs path = listing fs path"

text \<open>\<open>rename(old, new)\<close> of POSIX for a file that is not a directory (the program
  calls it on no other): an existing file at \<open>new\<close> is replaced; a directory at \<open>new\<close>
  makes the call fail. The result is 0 or -1 and the file system after the call.\<close>

definition rename :: "filesystem \<Rightarrow> string \<Rightarrow> string \<Rightarrow> int \<times> filesystem" where
  "rename fs old new =
     (case nodes fs old of
        None \<Rightarrow> (- 1, fs)
      | Some n \<Rightarrow>
          if (old, new) \<in> unmovable fs \<or> n = Dir \<or> nodes fs new = Some Dir then (- 1, fs)
          else (0, fs\<lparr>nodes := (nodes fs)(old := None, new \<mapsto> n)\<rparr>))"

text \<open>\<open>snprintf(buf, n, "%s/%s", dir, name)\<close> keeps at most \<open>n - 1\<close>
  characters.\<close>

definition snprintf_path :: "nat \<Rightarrow> string \<Rightarrow> string \<Rightarrow> string" where
  "snprintf_path n dir name = take (n - 1) (dir @ ''/'' @ name)"

text \<open>\<open>NAME_MAX\<close> comes from the system's \<open>limits.h\<close>; 255 is its value on Linux,
  and no name that \<open>readdir\<close> returns is longer.\<close>

definition NAME_MAX :: nat where
  "NAME_MAX = 255"

section \<open>The key classifier\<close>

text \<open>Every line the program prints, on standard error or (\<open>Timestamp\<close>) on standard
  output.\<close>

datatype msg =
    Failed_to_open string
  | Failed_to_read string
  | Failed_raw string
  | Failed_dearmor string
  | Usage string
  | Failed_primary
  | Primary_timestamp uint
  | Failed_alloc_dest
  | Cant_open_directory string
  | Failed_alloc_path
  | Unable_to_stat string
  | Opening string
  | Timestamp uint
  | Moving string
  | Failed_to_move string

text \<open>
  \<open>pgp_key_extract_timestamp\<close> on a host of byte order \<open>le\<close>: the result, the value of
  \<open>*out_timestamp\<close> afterwards and the lines printed. \<open>out_timestamp\<close> is the value
  the caller's variable held before the call. The file is opened for reading only and
  closed on every path, so the file system is the same afterwards. The result \<open>None\<close>
  stands for a store outside the line buffer.
\<close>

definition pgp_key_extract_timestamp ::
  "bool \<Rightarrow> filesystem \<Rightarrow> string \<Rightarrow> uint \<Rightarrow> (int \<times> uint \<times> msg list) option" where
  "pgp_key_extract_timestamp le fs file_path out_timestamp =
     (case fopen fs file_path of
        None \<Rightarrow> Some (1, out_timestamp, [Failed_to_open file_path])
      | Some file \<Rightarrow>
          (case fread (replicate 5 0) 5 file of
             (n, key_armor_check_buf, file1) \<Rightarrow>
               if n < 5 then Some (1, out_timestamp, [Failed_to_read file_path])
               else if memcmp key_armor_check_buf (bytes_of ''-----'') 5 \<noteq> 0 then
                 (case pgp_key_raw_extract_timestamp file1 (store_uint le out_timestamp) of
                    (rc, out1, file2) \<Rightarrow>
                      if rc \<noteq> 0 then Some (1, load_uint le out1, [Failed_raw file_path])
                      else Some (0, ntohl le (load_uint le out1), []))
               else
                 (case pgp_key_dearmor_extract_timestamp file1
                         (store_uint le out_timestamp) of
                    None \<Rightarrow> None
                  | Some (rc, out1, file2) \<Rightarrow>
                      if rc \<noteq> 0 then Some (1, load_uint le out1, [Failed_dearmor file_path])
                      else Some (0, ntohl le (load_uint le out1), []))))"

section \<open>The directory scan and \<open>main\<close>\<close>

text \<open>
  The state of the loop in \<open>main\<close>: the file system, the lines printed so far and the
  variable \<open>timestamp\<close>, which every call of the classifier writes through. \<open>query\<close>
  is \<open>Some (timestamp_query, dest_dir)\<close> when \<open>argc\<close> is 4. Each \<open>continue\<close> is the
  recursive call on the remaining entries.
\<close>

record scan_state =
  fsys :: filesystem
  printed :: "msg list"
  timestamp :: uint

fun hidden :: "string \<Rightarrow> bool" where
  "hidden [] = False"
| "hidden (c # cs) = (c = CHR ''.'')"

definition move_compatible ::
  "(uint \<times> string) option \<Rightarrow> string \<Rightarrow> string \<Rightarrow> scan_state \<Rightarrow> scan_state" where
  "move_compatible query file_path d_name s =
     (case query of
        None \<Rightarrow> s
      | Some (timestamp_query, dest_dir) \<Rightarrow>
          if timestamp s \<ge> timestamp_query then
            (case rename (fsys s) file_path
                    (snprintf_path (length dest_dir + NAME_MAX + 1) dest_dir d_name) of
               (r, fs1) \<Rightarrow>
                 if r = - 1
                 then s\<lparr>fsys := fs1,
                        printed := printed s @ [Moving file_path, Failed_to_move file_path]\<rparr>
                 else s\<lparr>fsys := fs1, printed := printed s @ [Moving file_path]\<rparr>)
          else s)"

fun scan ::
  "bool \<Rightarrow> string \<Rightarrow> (uint \<times> string) option \<Rightarrow> string list \<Rightarrow> scan_state
     \<Rightarrow> scan_state option" where
  "scan le source_dir query [] s = Some s"
| "scan le source_dir query (d_name # rest) s =
     (case stat (fsys s) (snprintf_path (length source_dir + NAME_MAX + 1) source_dir d_name) of
        None \<Rightarrow>
          scan le source_dir query rest
            (s\<lparr>printed := printed s @
                 [Unable_to_stat
                    (snprintf_path (length source_dir + NAME_MAX + 1) source_dir d_name)]\<rparr>)
      | Some stbuf \<Rightarrow>
          if st_is_dir stbuf then scan le source_dir query rest s
          else if st_size stbuf = 0 then scan le source_dir query rest s
          else if hidden d_name then scan le source_dir query rest s
          else
            (case pgp_key_extract_timestamp le (fsys s)
                    (snprintf_path (length source_dir + NAME_MAX + 1) source_dir d_name)
                    (timestamp s) of
               None \<Rightarrow> None
             | Some (rc, t, msgs) \<Rightarrow>
                 if rc \<noteq> 0 then
                   scan le source_dir query rest
                     (s\<lparr>printed := printed s @
                          [Opening (snprintf_path (length source_dir + NAME_MAX + 1)
                                      source_dir d_name)] @ msgs,
                        timestamp := t\<rparr>)
                 else
                   scan le source_dir query rest
                     (move_compatible query
                        (snprintf_path (length source_dir + NAME_MAX + 1) source_dir d_name)
                        d_name
                        (s\<lparr>printed := printed s @
                             [Opening (snprintf_path (length source_dir + NAME_MAX + 1)
                                         source_dir d_name)] @ msgs @ [Timestamp t],
                           timestamp := t\<rparr>))))"

text \<open>
  What the machine contributes to a run: its byte order, which allocations \<open>malloc\<close>
  grants, and the indeterminate values that the locals \<open>timestamp\<close> and
  \<open>timestamp_query\<close> hold before anything is stored in them.
\<close>

record machine =
  little_endian :: bool
  malloc_ok :: "nat \<Rightarrow> bool"
  uninit_timestamp :: uint
  uninit_timestamp_query :: uint

text \<open>The part of \<open>main\<close> from \<open>opendir\<close> on. Falling off the end of \<open>main\<close> is
  exit code 0.\<close>

definition main_scan ::
  "machine \<Rightarrow> filesystem \<Rightarrow> string \<Rightarrow> (uint \<times> string) option \<Rightarrow> msg list
     \<Rightarrow> (int \<times> msg list \<times> filesystem) option" where
  "main_scan m fs source_dir query out0 =
     (case opendir fs source_dir of
        None \<Rightarrow> Some (1, out0 @ [Cant_open_directory source_dir], fs)
      | Some entries \<Rightarrow>
          if \<not> malloc_ok m (length source_dir + NAME_MAX + 1)
          then Some (1, out0 @ [Failed_alloc_path], fs)
          else map_option (\<lambda>s. (0, printed s, fsys s))
                 (scan (little_endian m) source_dir query entries
                    \<lparr>fsys = fs, printed = out0, timestamp = uninit_timestamp m\<rparr>))"

text \<open>\<open>main\<close>: \<open>argc\<close> is the length of \<open>argv\<close>. The result is the exit code, the
  lines printed and the file system at exit.\<close>

definition main ::
  "machine \<Rightarrow> filesystem \<Rightarrow> string list \<Rightarrow> (int \<times> msg list \<times> filesystem) option" where
  "main m fs argv =
     (if length argv \<noteq> 2 \<and> length argv \<noteq> 4 then Some (1, [Usage (concat (take 1 argv))], fs)
      else if length argv = 4 then
        (case pgp_key_extract_timestamp (little_endian m) fs (argv ! 2)
                (uninit_timestamp_query m) of
           None \<Rightarrow> None
         | Some (rc, timestamp_query, msgs) \<Rightarrow>
             if rc \<noteq> 0 then Some (1, msgs @ [Failed_primary], fs)
             else if \<not> malloc_ok m (length (argv ! 3) + NAME_MAX + 1)
             then Some (1, msgs @ [Primary_timestamp timestamp_query, Failed_alloc_dest], fs)
             else main_scan m fs (argv ! 1) (Some (timestamp_query, argv ! 3))
                    (msgs @ [Primary_timestamp timestamp_query]))
      else main_scan m fs (argv ! 1) None [])"

section \<open>Armored text\<close>

text \<open>
  The armored text of the refinement claim, written from the specification's words and
  the armor format it names (RFC 4880): a \<open>BEGIN\<close> line, header lines, a blank line, the
  base64 text of the packet in lines of 64 characters, the checksum line and the \<open>END\<close>
  line. The base64 encoder is the one of RFC 4648; the program itself contains none.
\<close>

definition base64_alphabet :: "byte list" where
  "base64_alphabet =
     bytes_of ''ABCDEFGHIJKLMNOPQRSTUVWXYZabcdefghijklmnopqrstuvwxyz0123456789+/''"

definition base64_char :: "byte \<Rightarrow> byte" where
  "base64_char n = base64_alphabet ! unat n"

fun base64_encode :: "byte list \<Rightarrow> byte list" where
  "base64_encode (a # b # c # rest) =
     [base64_char (drop_bit 2 a),
      base64_char (push_bit 4 (a AND 3) OR drop_bit 4 b),
      base64_char (push_bit 2 (b AND 15) OR drop_bit 6 c),
      base64_char (c AND 63)] @ base64_encode rest"
| "base64_encode [a, b] =
     [base64_char (drop_bit 2 a),
      base64_char (push_bit 4 (a AND 3) OR drop_bit 4 b),
      base64_char (push_bit 2 (b AND 15)), 61]"
| "base64_encode [a] =
     [base64_char (drop_bit 2 a), base64_char (push_bit 4 (a AND 3)), 61, 61]"
| "base64_encode [] = []"

function wrap64 :: "byte list \<Rightarrow> byte list" where
  "wrap64 cs = (if cs = [] then [] else take 64 cs @ [10] @ wrap64 (drop 64 cs))"
  by pat_completeness auto

datatype key_kind = Public | Private

definition armor_line :: "string \<Rightarrow> key_kind \<Rightarrow> byte list" where
  "armor_line word kind =
     bytes_of (''-----'' @ word @ '' PGP ''
               @ (case kind of Public \<Rightarrow> ''PUBLIC'' | Private \<Rightarrow> ''PRIVATE'')
               @ '' KEY BLOCK-----'') @ [10]"

definition armor :: "key_kind \<Rightarrow> byte list list \<Rightarrow> byte list \<Rightarrow> byte list \<Rightarrow> byte list" where
  "armor kind headers packet checksum =
     armor_line ''BEGIN'' kind
     @ concat (map (\<lambda>h. h @ [10]) headers)
     @ [10]
     @ wrap64 (base64_encode packet)
     @ [61] @ checksum @ [10]
     @ armor_line ''END'' kind"

section \<open>Sample inputs\<close>

text \<open>Concrete streams and file systems on which the theorems below are instantiated.\<close>

definition full_line_file :: FILE where
  "full_line_file =
     \<lparr>bytes = bytes_of ''ABCDEFGHIJKLMNOPQRSTUVWXYZabcdefghijklmnopqrstuvwxyz0123456789+/'' @ [10]
              @ bytes_of ''=abcd'' @ [10],
      offset = 0, seekable = True\<rparr>"

text \<open>Three version-4 key packets (tag, length, version 4, the four timestamp bytes, an
  Ed25519 key) with the timestamps 1700000000, 1700000001 and 1699999999.\<close>

definition key_tail :: "byte list" where
  "key_tail =
     [0x16, 0x09, 0x2B, 0x06, 0x01, 0x04, 0x01, 0xDA, 0x47, 0x0F, 0x01, 0x01, 0x07, 0x40,
      1, 2, 3, 4, 5, 6, 7, 8, 9, 10, 11, 12, 13, 14, 15, 16,
      17, 18, 19, 20, 21, 22, 23, 24, 25, 26, 27, 28, 29, 30, 31, 32]"

definition key_a :: "byte list" where
  "key_a = [0x98, 0x33, 0x04, 0x65, 0x53, 0xF1, 0x00] @ key_tail"

definition key_b :: "byte list" where
  "key_b = [0x98, 0x33, 0x04, 0x65, 0x53, 0xF1, 0x01] @ key_tail"

definition key_old :: "byte list" where
  "key_old = [0x98, 0x33, 0x04, 0x65, 0x53, 0xF0, 0xFF] @ key_tail"

text \<open>A directory \<open>src\<close> with a subdirectory, an empty file, a hidden file, a name
  whose file is gone, a file too short to be a key, three raw keys and an armored one;
  the primary key; a directory \<open>dst\<close> that already holds a file named \<open>a.gpg\<close>. The
  system refuses to move \<open>c.gpg\<close>.\<close>

definition sample_fs :: filesystem where
  "sample_fs =
     \<lparr>nodes = [''src/sub'' \<mapsto> Dir,
               ''src/empty'' \<mapsto> Reg [],
               ''src/.hidden'' \<mapsto> Reg key_a,
               ''src/short'' \<mapsto> Reg [1, 2, 3],
               ''src/a.gpg'' \<mapsto> Reg key_a,
               ''src/old.gpg'' \<mapsto> Reg key_old,
               ''src/c.gpg'' \<mapsto> Reg key_b,
               ''src/b.asc'' \<mapsto> Reg (armor Public [bytes_of ''Comment: sample''] key_b
                                        (bytes_of ''abcd'')),
               ''primary.gpg'' \<mapsto> Reg key_a,
               ''pipe'' \<mapsto> Special key_a False,
               ''dst'' \<mapsto> Dir,
               ''dst/a.gpg'' \<mapsto> Reg [7, 7, 7, 7, 7, 7, 7]],
      unreadable = {},
      unmovable = {(''src/c.gpg'', ''dst/c.gpg'')},
      listing = [''src'' \<mapsto> [''sub'', ''empty'', ''.hidden'', ''gone'', ''short'',
                               ''a.gpg'', ''old.gpg'', ''c.gpg'', ''b.asc'']]\<rparr>"

definition sample_machine :: machine where
  "sample_machine =
     \<lparr>little_endian = True, malloc_ok = (\<lambda>n. True),
      uninit_timestamp = 0xDEADBEEF, uninit_timestamp_query = 0xCAFEF00D\<rparr>"

definition sample_state :: scan_state where
  "sample_state = \<lparr>fsys = sample_fs, printed = [], timestamp = 0\<rparr>"


text \<open>An armored file whose first line after the header is a \<open>Comment:\<close> line of
  exactly 65 bytes with its newline, followed by one full line of base64 text; and an
  armored file whose only long line holds no base64 text at all.\<close>

definition comment65_file :: FILE where
  "comment65_file =
     \<lparr>bytes = bytes_of ''-----BEGIN PGP PUBLIC KEY BLOCK-----'' @ [10]
              @ bytes_of ''Comment: 0123456789012345678901234567890123456789012345678901234''
              @ [10, 10]
              @ bytes_of ''mDMEZVPxARYJKwYBBAHaRw8BAQdAAQIDBAUGBwgJCgsMDQ4PEBESExQVFhcYGRob''
              @ [10],
      offset = 5, seekable = True\<rparr>"

definition junk_armor :: "byte list" where
  "junk_armor =
     bytes_of ''-----'' @ [10]
       @ bytes_of ''................................................................''
       @ [10]"

definition junk_fs :: filesystem where
  "junk_fs =
     \<lparr>nodes = [''junk.asc'' \<mapsto> Reg junk_armor],
      unreadable = {}, unmovable = {}, listing = Map.empty\<rparr>"


section \<open>Termination of the armor scan\<close>

lemma fgets_bytes_length: "length (fgets_bytes k bs) \<le> length bs"
  by (induction k bs rule: fgets_bytes.induct) auto

lemma fgets_Some:
  assumes "fgets line n f = Some (line1, f1)"
  shows "bytes f1 = bytes f" and "offset f < offset f1"
    and "offset f1 \<le> max (offset f) (length (bytes f))"
  using assms fgets_bytes_length [of "n - 1" "drop (offset f) (bytes f)"]
  by (auto simp: fgets_def split: list.splits)

lemma fgets_decreases:
  assumes "fgets line n f = Some (line1, f1)"
  shows "length (bytes f1) - offset f1 < length (bytes f) - offset f"
  using fgets_Some [OF assms] by (auto simp: max_def split: if_splits)

termination dearmor_loop
proof (relation "measure (\<lambda>(line, f, out). length (bytes f) - offset f)")
  show "wf (measure (\<lambda>(line, f, out). length (bytes f) - offset f))" by simp
next
  fix line f out_timestamp x2 x y
  assume "fgets line 67 f = Some x2" "(x, y) = x2"
  then have "fgets line 67 f = Some (x, y)" by simp
  from fgets_decreases [OF this]
  show "((x, y, out_timestamp), line, f, out_timestamp)
          \<in> measure (\<lambda>(line, f, out). length (bytes f) - offset f)"
    by simp
  then show "((x, y, out_timestamp), line, f, out_timestamp)
          \<in> measure (\<lambda>(line, f, out). length (bytes f) - offset f)" .
qed

declare dearmor_loop.simps [simp del]

termination fgets_lines
proof (relation "measure (\<lambda>(line, f). length (bytes f) - offset f)")
  show "wf (measure (\<lambda>(line, f). length (bytes f) - offset f))" by simp
next
  fix line f x2 x y
  assume "fgets line 67 f = Some x2" "(x, y) = x2"
  then have "fgets line 67 f = Some (x, y)" by simp
  from fgets_decreases [OF this]
  show "((x, y), line, f) \<in> measure (\<lambda>(line, f). length (bytes f) - offset f)"
    by simp
qed

declare fgets_lines.simps [simp del]

termination wrap64
  by (relation "measure length") auto

declare wrap64.simps [simp del]


section \<open>Byte order\<close>

lemma load_store_be: "load_be (store_be w) = w"
  unfolding load_be_def store_be_def
  apply simp
  apply (rule bit_word_eqI)
  subgoal for n
    by (cases "n < 8"; cases "n < 16"; cases "n < 24"; auto simp: bit_simps)
  done

lemma store_load_be4: "store_be (load_be [a, b, c, d]) = [a, b, c, d]"
  unfolding load_be_def store_be_def
  apply simp
  apply (intro conjI; rule bit_word_eqI; auto simp: bit_simps dest: bit_imp_le_length)
  done

lemma store_load_be: "length bs = 4 \<Longrightarrow> store_be (load_be bs) = bs"
proof -
  assume "length bs = 4"
  then obtain a b c d where "bs = [a, b, c, d]"
    by (auto simp: length_Suc_conv eval_nat_numeral)
  then show ?thesis by (simp add: store_load_be4)
qed

lemma ntohl_load_uint: "length bs = 4 \<Longrightarrow> ntohl le (load_uint le bs) = load_be bs"
  by (simp add: ntohl_def load_uint_def store_uint_def load_store_be store_load_be)

lemma load_store_uint: "load_uint le (store_uint le w) = w"
  by (simp add: load_uint_def store_uint_def load_store_be)

lemma length_store_uint: "length (store_uint le w) = 4"
  by (simp add: store_uint_def store_be_def)

section \<open>Base64 arithmetic\<close>

lemma byte_masks: "(3 :: byte) = mask 2" "(15 :: byte) = mask 4" "(63 :: byte) = mask 6"
  by (simp_all add: mask_eq_exp_minus_1)

lemma sextet_less: "x AND mask 6 = x \<Longrightarrow> x < (64 :: byte)"
  using and_mask_less_size [of 6 x] by (simp add: word_size)

lemma sextet1: "drop_bit 2 (a :: byte) < 64"
  by (rule sextet_less, rule bit_word_eqI) (auto simp: bit_simps dest: bit_imp_le_length)

lemma sextet2: "push_bit 4 (a AND 3) OR drop_bit 4 b < (64 :: byte)"
  unfolding byte_masks
  by (rule sextet_less, rule bit_word_eqI) (auto simp: bit_simps dest: bit_imp_le_length)

lemma sextet3: "push_bit 2 (b AND 15) OR drop_bit 6 c < (64 :: byte)"
  unfolding byte_masks
  by (rule sextet_less, rule bit_word_eqI) (auto simp: bit_simps dest: bit_imp_le_length)

lemma sextet4: "c AND 63 < (64 :: byte)"
  unfolding byte_masks
  by (rule sextet_less, rule bit_word_eqI) (auto simp: bit_simps dest: bit_imp_le_length)

lemma less8_cases: "n < 8 \<Longrightarrow> n \<in> {0, 1, 2, 3, 4, 5, 6, 7 :: nat}"
  by auto

lemma group_byte0:
  "ucast (drop_bit 16 (group_acc v (drop_bit 2 a) (push_bit 4 (a AND 3) OR drop_bit 4 b) s2 s3))
     = a"
  unfolding byte_masks group_acc_def
  apply (rule bit_word_eqI)
  subgoal for n
    using less8_cases [of n]
    by (auto simp: bit_simps simp flip: numeral_2_eq_2 numeral_3_eq_3 dest: bit_imp_le_length)
  done

lemma group_byte1:
  "ucast (drop_bit 8 (group_acc v s0 (push_bit 4 (a AND 3) OR drop_bit 4 b)
                        (push_bit 2 (b AND 15) OR drop_bit 6 c) s3))
     = b"
  unfolding byte_masks group_acc_def
  apply (rule bit_word_eqI)
  subgoal for n
    using less8_cases [of n]
    by (auto simp: bit_simps simp flip: numeral_2_eq_2 numeral_3_eq_3 dest: bit_imp_le_length)
  done

lemma group_byte2:
  "ucast (group_acc v s0 s1 (push_bit 2 (b AND 15) OR drop_bit 6 c) (c AND 63)) = c"
  unfolding byte_masks group_acc_def
  apply (rule bit_word_eqI)
  subgoal for n
    using less8_cases [of n]
    by (auto simp: bit_simps simp flip: numeral_2_eq_2 numeral_3_eq_3 dest: bit_imp_le_length)
  done

text \<open>Every character of the alphabet has its index as rank, and none is NUL, a
  newline, \<open>-\<close>, \<open>:\<close> or \<open>=\<close>.\<close>

lemma alphabet_checked:
  "\<forall>n \<in> set [0..<64].
     mime_base64_rank (base64_char (of_nat n)) = of_nat n
     \<and> base64_char (of_nat n) \<notin> {0, 10, 45, 58, 61}"
  unfolding base64_char_def base64_alphabet_def bytes_of_def mime_base64_rank_def
  by (simp add: upt_rec)

lemma rank_char:
  assumes "x < 64"
  shows "mime_base64_rank (base64_char x) = x" and "base64_char x \<notin> {0, 10, 45, 58, 61}"
proof -
  from assms have "unat x < 64" by (simp add: word_less_nat_alt)
  then have "unat x \<in> set [0..<64]" by simp
  then have "mime_base64_rank (base64_char (of_nat (unat x))) = of_nat (unat x)
     \<and> base64_char (of_nat (unat x)) \<notin> {0, 10, 45, 58, 61}"
    by (rule alphabet_checked [rule_format])
  then show "mime_base64_rank (base64_char x) = x" and "base64_char x \<notin> {0, 10, 45, 58, 61}"
    by simp_all
qed


section \<open>Reading lines\<close>

lemma fgets_bytes_le: "length (fgets_bytes k bs) \<le> k"
  by (induction k bs rule: fgets_bytes.induct) auto

lemma fgets_bytes_line:
  "10 \<notin> set l \<Longrightarrow> length l < k \<Longrightarrow> fgets_bytes k (l @ 10 # rest) = l @ [10]"
  by (induction l arbitrary: k) auto

lemma fgets_length:
  assumes "fgets line 67 f = Some (line1, f1)" and "length line = 67"
  shows "length line1 = 67"
  using assms fgets_bytes_le [of 66 "drop (offset f) (bytes f)"]
  by (auto simp: fgets_def split: list.splits)

lemma fgets_eq:
  "fgets line n f =
     (if fgets_bytes (n - 1) (drop (offset f) (bytes f)) = [] then None
      else Some (fgets_bytes (n - 1) (drop (offset f) (bytes f)) @ [0]
                   @ drop (length (fgets_bytes (n - 1) (drop (offset f) (bytes f))) + 1) line,
                 f\<lparr>offset := offset f
                     + length (fgets_bytes (n - 1) (drop (offset f) (bytes f)))\<rparr>))"
  by (simp add: fgets_def split: list.splits)

lemma fgets_line:
  assumes "drop (offset f) (bytes f) = l @ 10 # rest" and "10 \<notin> set l" and "length l \<le> 65"
  shows "fgets line 67 f
           = Some (l @ [10] @ [0] @ drop (length l + 2) line, f\<lparr>offset := offset f + length l + 1\<rparr>)"
  using assms by (simp add: fgets_eq fgets_bytes_line)

lemma dearmor_decode_Some:
  "length line = 67 \<Longrightarrow> \<exists>out1. dearmor_decode line out = Some out1"
  by (simp add: dearmor_decode_def dearmor_pad_def store_def)

lemma dearmor_loop_Some:
  "length line = 67 \<Longrightarrow> \<exists>r. dearmor_loop line f out = Some r"
proof (induction line f out rule: dearmor_loop.induct)
  case (1 line f out)
  show ?case
  proof (cases "fgets line 67 f")
    case None
    then show ?thesis by (simp add: dearmor_loop.simps [of line f out])
  next
    case (Some p)
    obtain line1 f1 where p: "p = (line1, f1)" by (cases p)
    have len: "length line1 = 67"
      using fgets_length Some p "1.prems" by blast
    show ?thesis
      using Some p len "1.IH" dearmor_decode_Some [OF len, of out]
      by (auto simp: dearmor_loop.simps [of line f out])
  qed
qed



section \<open>The selected line\<close>

lemma strlen_split:
  assumes "strlen s = n"
  obtains t r where "s = t @ r" and "length t = n" and "0 \<notin> set t"
    and "takeWhile (\<lambda>b. b \<noteq> 0) s = t"
proof
  show "s = takeWhile (\<lambda>b. b \<noteq> 0) s @ dropWhile (\<lambda>b. b \<noteq> 0) s" by simp
  show "length (takeWhile (\<lambda>b. b \<noteq> 0) s) = n" using assms by (simp add: strlen_def)
  show "0 \<notin> set (takeWhile (\<lambda>b. b \<noteq> 0) s)" by (auto dest: set_takeWhileD)
  show "takeWhile (\<lambda>b. b \<noteq> 0) s = takeWhile (\<lambda>b. b \<noteq> 0) s" ..
qed

lemma takeWhile_nonzero: "0 \<notin> set t \<Longrightarrow> takeWhile (\<lambda>b. b \<noteq> (0::byte)) (t @ 0 # r) = t"
  by (induction t) auto

lemma strlen_append_nul: "0 \<notin> set t \<Longrightarrow> strlen (t @ 0 # r) = length t"
  by (simp add: strlen_def takeWhile_nonzero)

lemma prefix13:
  assumes "13 \<le> length t"
  obtains x0 x1 x2 x3 c0 c1 c2 c3 c4 c5 m0 m1 m2 r
    where "t = [x0, x1, x2, x3, c0, c1, c2, c3, c4, c5, m0, m1, m2] @ r"
  using assms by (auto simp: Suc_le_length_iff eval_nat_numeral)

lemma dearmor_decode_qualifying:
  assumes "strlen line = 65"
  shows "dearmor_decode line out
           = Some (fst (snd (g_base64_decode_step (take 6 (drop 4 line) @ [61, 61]) 8 out 0 0)))
         \<and> strlen (drop 4 (line[10 := 61, 11 := 61, 12 := 0])) = 8"
proof -
  from assms obtain t r where s: "line = t @ r" and t: "length t = 65" "0 \<notin> set t"
    by (rule strlen_split)
  from t(1) have "13 \<le> length t" by simp
  then obtain x0 x1 x2 x3 c0 c1 c2 c3 c4 c5 m0 m1 m2 r1
    where t_eq: "t = [x0, x1, x2, x3, c0, c1, c2, c3, c4, c5, m0, m1, m2] @ r1"
    by (rule prefix13)
  have nz: "c0 \<noteq> 0" "c1 \<noteq> 0" "c2 \<noteq> 0" "c3 \<noteq> 0" "c4 \<noteq> 0" "c5 \<noteq> 0"
    using t(2) unfolding t_eq by auto
  show ?thesis
    unfolding s t_eq using nz
    by (simp add: dearmor_decode_def dearmor_pad_def store_def strlen_def g_base64_decode_step_def)
qed

lemma strlen_le_prefix: "strlen (t @ 0 # r) \<le> length t"
  unfolding strlen_def by (induction t) auto


section \<open>The classifier\<close>

lemma memcmp_eq: "length a = n \<Longrightarrow> length b = n \<Longrightarrow> (memcmp a b n = 0) = (a = b)"
  by (induction a b n rule: memcmp.induct) auto

lemma fopen_offset: "fopen fs path = Some f \<Longrightarrow> offset f = 0"
  by (auto simp: fopen_def split: if_splits option.splits node.splits)

lemma fread5:
  assumes "offset f = 0"
  shows "fread (replicate 5 0) 5 f
           = (min 5 (length (bytes f)),
              take 5 (bytes f) @ drop (min 5 (length (bytes f))) (replicate 5 0),
              f\<lparr>offset := min 5 (length (bytes f))\<rparr>)"
  using assms by (simp add: fread_def min_def)

lemma raw_extract:
  "pgp_key_raw_extract_timestamp f buf =
     (if seekable f then
        (if length (bytes f) < 7
         then (1, drop 3 (bytes f) @ drop (length (bytes f) - 3) buf,
               f\<lparr>offset := 3 + (length (bytes f) - 3)\<rparr>)
         else (0, take 4 (drop 3 (bytes f)) @ drop 4 buf, f\<lparr>offset := 7\<rparr>))
      else (1, buf, f))"
  by (auto simp: pgp_key_raw_extract_timestamp_def fseek_set_def fread_def min_def)

lemma extract_dispatch:
  assumes "fopen fs path = Some f"
  shows "pgp_key_extract_timestamp le fs path out =
     (if length (bytes f) < 5 then Some (1, out, [Failed_to_read path])
      else if take 5 (bytes f) = bytes_of ''-----'' then
        (case pgp_key_dearmor_extract_timestamp (f\<lparr>offset := 5\<rparr>) (store_uint le out) of
           None \<Rightarrow> None
         | Some (rc, out1, f2) \<Rightarrow>
             if rc \<noteq> 0 then Some (1, load_uint le out1, [Failed_dearmor path])
             else Some (0, ntohl le (load_uint le out1), []))
      else
        (case pgp_key_raw_extract_timestamp (f\<lparr>offset := 5\<rparr>) (store_uint le out) of
           (rc, out1, f2) \<Rightarrow>
             if rc \<noteq> 0 then Some (1, load_uint le out1, [Failed_raw path])
             else Some (0, ntohl le (load_uint le out1), [])))"
proof -
  have off: "offset f = 0" using assms by (rule fopen_offset)
  have dashes: "length (bytes_of ''-----'') = 5" by (simp add: bytes_of_def)
  show ?thesis
  proof (cases "length (bytes f) < 5")
    case True
    then show ?thesis
      using assms by (simp add: pgp_key_extract_timestamp_def fread5 [OF off] min_def)
  next
    case False
    then have "(memcmp (take 5 (bytes f)) (bytes_of ''-----'') 5 = 0)
                 = (take 5 (bytes f) = bytes_of ''-----'')"
      using dashes by (intro memcmp_eq) simp_all
    then show ?thesis
      using assms False
      by (simp add: pgp_key_extract_timestamp_def fread5 [OF off] min_def)
  qed
qed

text \<open>Evaluation of the armor scan on a concrete stream.\<close>

lemmas dearmor_eval =
  pgp_key_dearmor_extract_timestamp_def dearmor_loop.simps fgets_def strchr_def strlen_def
  dearmor_decode_def dearmor_pad_def store_def g_base64_decode_step_def mime_base64_rank_def

lemmas armor_eval =
  armor_def armor_line_def bytes_of_def wrap64.simps base64_char_def base64_alphabet_def

lemmas byte_order_eval =
  store_uint_def store_be_def load_uint_def load_be_def ntohl_def

section \<open>The scan\<close>

lemma classifier_total:
  "\<exists>rc t msgs. pgp_key_extract_timestamp le fs path out = Some (rc, t, msgs) \<and> (rc = 0 \<or> rc = 1)"
proof (cases "fopen fs path")
  case None
  then show ?thesis by (simp add: pgp_key_extract_timestamp_def)
next
  case (Some f)
  have "\<exists>r. pgp_key_dearmor_extract_timestamp (f\<lparr>offset := 5\<rparr>) (store_uint le out) = Some r"
    unfolding pgp_key_dearmor_extract_timestamp_def by (rule dearmor_loop_Some) simp
  then obtain r
    where "pgp_key_dearmor_extract_timestamp (f\<lparr>offset := 5\<rparr>) (store_uint le out) = Some r" ..
  then show ?thesis
    by (cases r) (auto simp: extract_dispatch [OF Some] split: prod.splits)
qed


lemma scan_total: "\<exists>s'. scan le src q es s = Some s'"
proof (induction es arbitrary: s)
  case Nil
  show ?case by simp
next
  case (Cons d es)
  obtain rc t msgs where
    "pgp_key_extract_timestamp le (fsys s)
       (snprintf_path (length src + NAME_MAX + 1) src d) (timestamp s) = Some (rc, t, msgs)"
    using classifier_total by blast
  then show ?case
    using Cons.IH by (auto split: option.splits)
qed



lemma snprintf_path_eq:
  "snprintf_path (length dir + NAME_MAX + 1) dir name = dir @ ''/'' @ take (NAME_MAX - 1) name"
  by (simp add: snprintf_path_def NAME_MAX_def)

lemma rename_cases:
  "rename fs old new =
     (case nodes fs old of
        None \<Rightarrow> (- 1, fs)
      | Some n \<Rightarrow>
          if (old, new) \<in> unmovable fs \<or> n = Dir \<or> nodes fs new = Some Dir then (- 1, fs)
          else (0, fs\<lparr>nodes := (nodes fs)(old := None, new \<mapsto> n)\<rparr>))"
  by (simp add: rename_def)



lemmas scan_entry = scan.simps(2) [unfolded snprintf_path_eq]

declare scan.simps(2) [simp del]





lemma main_scan_code:
  "\<exists>out fs1. main_scan m fs src q out0 =
     Some (if opendir fs src = None then 1
           else if \<not> malloc_ok m (length src + NAME_MAX + 1) then 1 else 0, out, fs1)"
proof (cases "opendir fs src")
  case None
  then show ?thesis by (simp add: main_scan_def)
next
  case (Some es)
  obtain s1 where "scan (little_endian m) src q es
      \<lparr>fsys = fs, printed = out0, timestamp = uninit_timestamp m\<rparr> = Some s1"
    using scan_total by blast
  with Some show ?thesis by (simp add: main_scan_def)
qed


lemma raw_classified:
  assumes "fopen fs path = Some f"
    and "5 \<le> length (bytes f)"
    and "take 5 (bytes f) \<noteq> bytes_of ''-----''"
  shows "(if seekable f \<and> 7 \<le> length (bytes f)
          then pgp_key_extract_timestamp le fs path out
                 = Some (0, load_be (take 4 (drop 3 (bytes f))), [])
               \<and> pgp_key_raw_extract_timestamp (f\<lparr>offset := 5\<rparr>) (store_uint le out)
                 = (0, take 4 (drop 3 (bytes f)), f\<lparr>offset := 7\<rparr>)
          else (\<exists>t. pgp_key_extract_timestamp le fs path out = Some (1, t, [Failed_raw path]))
               \<and> fst (pgp_key_raw_extract_timestamp (f\<lparr>offset := 5\<rparr>) (store_uint le out)) = 1)"
  using assms
  by (simp add: extract_dispatch [OF assms(1)] raw_extract length_store_uint ntohl_load_uint)

text \<open>A device that can be repositioned is read like a regular file.\<close>

lemma seekable_device_classified:
  assumes "nodes fs path = Some (Special bs True)" and "path \<notin> unreadable fs"
    and "7 \<le> length bs" and "take 5 bs \<noteq> bytes_of ''-----''"
  shows "pgp_key_extract_timestamp le fs path v = Some (0, load_be (take 4 (drop 3 bs)), [])"
proof -
  have o: "fopen fs path = Some \<lparr>bytes = bs, offset = 0, seekable = True\<rparr>"
    using assms(1,2) by (simp add: fopen_def)
  from raw_classified [OF o, of le v] assms(3,4) show ?thesis by simp
qed

lemmas move_compatible_path = move_compatible_def [unfolded snprintf_path_eq]

lemma stat_Reg: "nodes fs p = Some (Reg bs) \<Longrightarrow> stat fs p = Some \<lparr>st_is_dir = False, st_size = length bs\<rparr>"
  by (simp add: stat_def)


text \<open>Facts about the sample file system.\<close>

lemma sample_raw_keys:
  "pgp_key_extract_timestamp le sample_fs ''src/a.gpg'' out = Some (0, 1700000000, [])"
  "pgp_key_extract_timestamp le sample_fs ''src/old.gpg'' out = Some (0, 1699999999, [])"
  "pgp_key_extract_timestamp le sample_fs ''src/c.gpg'' out = Some (0, 1700000001, [])"
  "pgp_key_extract_timestamp le sample_fs ''primary.gpg'' out = Some (0, 1700000000, [])"
proof -
  have a: "fopen sample_fs ''src/a.gpg'' = Some \<lparr>bytes = key_a, offset = 0, seekable = True\<rparr>"
    and o: "fopen sample_fs ''src/old.gpg'' = Some \<lparr>bytes = key_old, offset = 0, seekable = True\<rparr>"
    and c: "fopen sample_fs ''src/c.gpg'' = Some \<lparr>bytes = key_b, offset = 0, seekable = True\<rparr>"
    and p: "fopen sample_fs ''primary.gpg'' = Some \<lparr>bytes = key_a, offset = 0, seekable = True\<rparr>"
    by (simp_all add: fopen_def sample_fs_def)
  show "pgp_key_extract_timestamp le sample_fs ''src/a.gpg'' out = Some (0, 1700000000, [])"
    using raw_classified [OF a, of le out]
    by (simp add: key_a_def key_tail_def bytes_of_def load_be_def)
  show "pgp_key_extract_timestamp le sample_fs ''src/old.gpg'' out = Some (0, 1699999999, [])"
    using raw_classified [OF o, of le out]
    by (simp add: key_old_def key_tail_def bytes_of_def load_be_def)
  show "pgp_key_extract_timestamp le sample_fs ''src/c.gpg'' out = Some (0, 1700000001, [])"
    using raw_classified [OF c, of le out]
    by (simp add: key_b_def key_tail_def bytes_of_def load_be_def)
  show "pgp_key_extract_timestamp le sample_fs ''primary.gpg'' out = Some (0, 1700000000, [])"
    using raw_classified [OF p, of le out]
    by (simp add: key_a_def key_tail_def bytes_of_def load_be_def)
qed


section \<open>What extraction and the scan leave unchanged\<close>














section \<open>The armor scan as a search\<close>

lemma dearmor_loop_find:
  "dearmor_loop line f out =
     (case find (\<lambda>(l, f1). qualifies l) (fgets_lines line f) of
        None \<Rightarrow> Some (1, out, last (f # map snd (fgets_lines line f)))
      | Some (l, f1) \<Rightarrow> map_option (\<lambda>out1. (0, out1, f1)) (dearmor_decode l out))"
proof (induction line f out rule: dearmor_loop.induct)
  case (1 line f out)
  show ?case
  proof (cases "fgets line 67 f")
    case None
    then show ?thesis
      by (simp add: dearmor_loop.simps [of line f out] fgets_lines.simps [of line f])
  next
    case (Some p)
    obtain line1 f2 where p: "p = (line1, f2)" by (cases p)
    have lines: "fgets_lines line f = (line1, f2) # fgets_lines line1 f2"
      using Some p by (simp add: fgets_lines.simps [of line f])
    show ?thesis
    proof (cases "strchr line1 45 \<or> strchr line1 58")
      case True
      then have nq: "\<not> qualifies line1" by (simp add: qualifies_def)
      from "1.IH"(1) [OF Some p [symmetric] True] True nq Some p show ?thesis
        by (simp add: dearmor_loop.simps [of line f out] lines split: option.splits)
    next
      case False
      show ?thesis
      proof (cases "strlen line1 \<noteq> 67 - 2")
        case True
        then have nq: "\<not> qualifies line1" by (simp add: qualifies_def)
        from "1.IH"(2) [OF Some p [symmetric] False True] False True nq Some p show ?thesis
          by (simp add: dearmor_loop.simps [of line f out] lines split: option.splits)
      next
        case l: False
        with False have "qualifies line1" by (simp add: qualifies_def)
        with False l Some p show ?thesis
          by (simp add: dearmor_loop.simps [of line f out] lines)
      qed
    qed
  qed
qed


lemmas lines_eval =
  fgets_lines.simps fgets_def qualifies_def strchr_def strlen_def bytes_of_def


section \<open>Decoding what the encoder wrote\<close>

lemma decode_group:
  assumes "mime_base64_rank c0 \<noteq> 255" "mime_base64_rank c1 \<noteq> 255"
    "mime_base64_rank c2 \<noteq> 255" "mime_base64_rank c3 \<noteq> 255" "c2 \<noteq> 61" "c3 \<noteq> 61"
  shows "foldl decode_char (v, 0, l0, l1, outs) [c0, c1, c2, c3] =
           (group_acc v (mime_base64_rank c0) (mime_base64_rank c1)
                        (mime_base64_rank c2) (mime_base64_rank c3),
            0, c3, c2,
            outs @ [ucast (drop_bit 16 (group_acc v (mime_base64_rank c0) (mime_base64_rank c1)
                        (mime_base64_rank c2) (mime_base64_rank c3))),
                    ucast (drop_bit 8 (group_acc v (mime_base64_rank c0) (mime_base64_rank c1)
                        (mime_base64_rank c2) (mime_base64_rank c3))),
                    ucast (group_acc v (mime_base64_rank c0) (mime_base64_rank c1)
                        (mime_base64_rank c2) (mime_base64_rank c3))])"
  using assms by (simp add: group_acc_def)

lemma rank_pad: "mime_base64_rank 61 = 0"
  by (simp add: mime_base64_rank_def)

lemma decode_tail:
  assumes "mime_base64_rank c4 \<noteq> 255" "mime_base64_rank c5 \<noteq> 255"
  shows "foldl decode_char (v, 0, l0, l1, outs) [c4, c5, 61, 61] =
           (group_acc v (mime_base64_rank c4) (mime_base64_rank c5) 0 0, 0, 61, 61,
            outs @ [ucast (drop_bit 16 (group_acc v (mime_base64_rank c4)
                                          (mime_base64_rank c5) 0 0))])"
  using assms by (simp add: group_acc_def rank_pad)

lemma sextet_rank:
  assumes "x < 64"
  shows "mime_base64_rank (base64_char x) \<noteq> 255" and "base64_char x \<noteq> 61"
  using rank_char [OF assms] assms by auto

lemma decode_encoded:
  "fst (snd (g_base64_decode_step
       [base64_char (drop_bit 2 a), base64_char (push_bit 4 (a AND 3) OR drop_bit 4 b),
        base64_char (push_bit 2 (b AND 15) OR drop_bit 6 c), base64_char (c AND 63),
        base64_char (drop_bit 2 d), base64_char (push_bit 4 (d AND 3) OR drop_bit 4 e),
        61, 61] 8 out 0 0))
     = [a, b, c, d] @ drop 4 out"
proof -
  define s0 where "s0 = drop_bit 2 a"
  define s1 where "s1 = push_bit 4 (a AND 3) OR drop_bit 4 b"
  define s2 where "s2 = push_bit 2 (b AND 15) OR drop_bit 6 c"
  define s3 where "s3 = c AND 63"
  define s4 where "s4 = drop_bit 2 d"
  define s5 where "s5 = push_bit 4 (d AND 3) OR drop_bit 4 e"
  have lt: "s0 < 64" "s1 < 64" "s2 < 64" "s3 < 64" "s4 < 64" "s5 < 64"
    unfolding s0_def s1_def s2_def s3_def s4_def s5_def
    by (rule sextet1 sextet2 sextet3 sextet4)+
  note r = lt [THEN rank_char(1)]
  note v = lt [THEN sextet_rank(1)]
  note p = lt [THEN sextet_rank(2)]
  define g1 where "g1 = group_acc 0 s0 s1 s2 s3"
  define g2 where "g2 = group_acc g1 s4 s5 0 0"
  have b: "ucast (drop_bit 16 g1) = a" "ucast (drop_bit 8 g1) = b" "ucast g1 = c"
    "ucast (drop_bit 16 g2) = d"
    unfolding g1_def g2_def s0_def s1_def s2_def s3_def s4_def s5_def
    by (rule group_byte0 group_byte1 group_byte2)+
  have first: "foldl decode_char (0, 0, 0, 0, [])
                 [base64_char s0, base64_char s1, base64_char s2, base64_char s3]
      = (g1, 0, base64_char s3, base64_char s2, [a, b, c])"
    unfolding decode_group [OF v(1-4) p(3,4)] r g1_def [symmetric] b by simp
  have "foldl decode_char (0, 0, 0, 0, [])
          ([base64_char s0, base64_char s1, base64_char s2, base64_char s3]
             @ [base64_char s4, base64_char s5, 61, 61])
      = (g2, 0, 61, 61, [a, b, c, d])"
    unfolding foldl_append first decode_tail [OF v(5,6)] r g2_def [symmetric] b by simp
  then have "foldl decode_char (0, 0, 0, 0, [])
          [base64_char s0, base64_char s1, base64_char s2, base64_char s3,
           base64_char s4, base64_char s5, 61, 61]
      = (g2, 0, 61, 61, [a, b, c, d])"
    by (simp only: append_Cons append_Nil)
  then show ?thesis
    unfolding s0_def [symmetric] s1_def [symmetric] s2_def [symmetric] s3_def [symmetric]
      s4_def [symmetric] s5_def [symmetric] g_base64_decode_step_def
    by (simp del: foldl_Cons add: eval_nat_numeral)
qed


lemma junk_dearmor:
  "pgp_key_dearmor_extract_timestamp \<lparr>bytes = junk_armor, offset = 5, seekable = True\<rparr> out
     = Some (0, out, \<lparr>bytes = junk_armor, offset = 71, seekable = True\<rparr>)"
  by (simp add: dearmor_eval junk_armor_def bytes_of_def)


section \<open>Skipping and selecting lines of an armored file\<close>

lemma takeWhile_shorter:
  "x \<in> set xs \<Longrightarrow> \<not> P x \<Longrightarrow> length (takeWhile P xs) < length xs"
  by (induction xs) auto

lemma line_not_qualifying:
  assumes "45 \<in> set l \<or> 58 \<in> set l \<or> length l \<noteq> 64" and "length l \<le> 65"
  shows "\<not> qualifies (l @ [10] @ [0] @ r)"
proof (cases "0 \<in> set l")
  case True
  then have "takeWhile (\<lambda>b. b \<noteq> 0) (l @ [10] @ [0] @ r) = takeWhile (\<lambda>b. b \<noteq> 0) l"
    by (auto simp: takeWhile_append1)
  moreover have "length (takeWhile (\<lambda>b. b \<noteq> 0) l) < length l"
    using True by (intro takeWhile_shorter [of 0]) auto
  ultimately show ?thesis
    using assms(2) by (simp add: qualifies_def strlen_def)
next
  case False
  then have "takeWhile (\<lambda>b. b \<noteq> 0) (l @ [10] @ [0] @ r) = l @ [10]"
    using takeWhile_nonzero [of "l @ [10]" r] by simp
  then show ?thesis
    using assms(1) by (auto simp: qualifies_def strlen_def strchr_def)
qed

lemma line_qualifying:
  assumes "length l = 64" and "\<forall>c \<in> set l. c \<notin> {0, 10, 45, 58}"
  shows "qualifies (l @ [10] @ [0] @ r)"
proof -
  have "0 \<notin> set (l @ [10])" using assms(2) by auto
  then have "takeWhile (\<lambda>b. b \<noteq> 0) (l @ [10] @ [0] @ r) = l @ [10]"
    using takeWhile_nonzero [of "l @ [10]" r] by simp
  then show ?thesis
    using assms by (auto simp: qualifies_def strlen_def strchr_def)
qed

lemma dearmor_loop_step:
  "dearmor_loop line f out =
     (case fgets line 67 f of
        None \<Rightarrow> Some (1, out, f)
      | Some (line1, f1) \<Rightarrow>
          if qualifies line1
          then map_option (\<lambda>out1. (0, out1, f1)) (dearmor_decode line1 out)
          else dearmor_loop line1 f1 out)"
  by (auto simp: dearmor_loop.simps [of line f out] qualifies_def split: option.splits)

lemma dearmor_skip:
  assumes "drop (offset f) (bytes f) = l @ 10 # rest" and "10 \<notin> set l" and "length l \<le> 65"
    and "45 \<in> set l \<or> 58 \<in> set l \<or> length l \<noteq> 64"
  shows "dearmor_loop line f out =
           dearmor_loop (l @ [10] @ [0] @ drop (length l + 2) line)
             (f\<lparr>offset := offset f + length l + 1\<rparr>) out"
  using line_not_qualifying [OF assms(4,3)]
  by (simp add: dearmor_loop_step [of line f out] fgets_line [OF assms(1-3)])

lemma dearmor_select:
  assumes "drop (offset f) (bytes f) = l @ 10 # rest" and "length l = 64"
    and "\<forall>c \<in> set l. c \<notin> {0, 10, 45, 58}"
  shows "dearmor_loop line f out =
           Some (0, fst (snd (g_base64_decode_step (take 6 (drop 4 l) @ [61, 61]) 8 out 0 0)),
                 f\<lparr>offset := offset f + 65\<rparr>)"
proof -
  have n: "10 \<notin> set l" "length l \<le> 65" using assms(2,3) by auto
  let ?line1 = "l @ [10] @ [0] @ drop (length l + 2) line"
  have q: "qualifies ?line1" using assms(2,3) by (rule line_qualifying)
  then have "strlen ?line1 = 65" by (simp add: qualifies_def)
  from dearmor_decode_qualifying [OF this, of out]
  have "dearmor_decode ?line1 out
      = Some (fst (snd (g_base64_decode_step (take 6 (drop 4 l) @ [61, 61]) 8 out 0 0)))"
    using assms(2) by simp
  with q show ?thesis
    using assms(2)
    by (simp add: dearmor_loop_step [of line f out] fgets_line [OF assms(1) n])
qed


lemma remaining_after:
  assumes "drop (offset f) (bytes f) = xs @ ys"
  shows "drop (offset (f\<lparr>offset := offset f + length xs\<rparr>))
              (bytes (f\<lparr>offset := offset f + length xs\<rparr>)) = ys"
proof -
  have "drop (offset f + length xs) (bytes f) = drop (length xs) (drop (offset f) (bytes f))"
    by (simp add: add.commute)
  with assms show ?thesis by simp
qed

lemma encode_group:
  "\<exists>c0 c1 c2 c3. base64_encode (a # b # c # rest) = [c0, c1, c2, c3] @ base64_encode rest
     \<and> (\<forall>x \<in> set [c0, c1, c2, c3]. x \<notin> {0, 10, 45, 58, 61})"
  using rank_char(2) [OF sextet1, of a] rank_char(2) [OF sextet2, of a b]
    rank_char(2) [OF sextet3, of b c] rank_char(2) [OF sextet4, of c]
  by (simp del: push_bit_and)

lemma encode_prefix:
  "3 * n \<le> length bs \<Longrightarrow>
     4 * n \<le> length (base64_encode bs)
     \<and> (\<forall>c \<in> set (take (4 * n) (base64_encode bs)). c \<notin> {0, 10, 45, 58, 61})"
proof (induction n arbitrary: bs)
  case 0
  then show ?case by simp
next
  case (Suc n)
  then obtain a b c rest where bs: "bs = a # b # c # rest"
    by (cases bs rule: base64_encode.cases) auto
  with Suc.prems have "3 * n \<le> length rest" by simp
  note ih = Suc.IH [OF this]
  obtain c0 c1 c2 c3 where
    e: "base64_encode bs = [c0, c1, c2, c3] @ base64_encode rest"
    and ok: "\<forall>x \<in> set [c0, c1, c2, c3]. x \<notin> {0, 10, 45, 58, 61}"
    unfolding bs using encode_group [of a b c rest] by blast
  have "take (4 * Suc n) (base64_encode bs) = [c0, c1, c2, c3] @ take (4 * n) (base64_encode rest)"
    unfolding e by (simp only: take_append) simp
  with ih ok show ?case
    unfolding e by auto
qed

lemma wrap64_first:
  "cs \<noteq> [] \<Longrightarrow> wrap64 cs = take 64 cs @ 10 # wrap64 (drop 64 cs)"
  by (simp add: wrap64.simps [of cs])

lemma prefix9:
  assumes "9 \<le> length t"
  obtains b0 b1 b2 b3 b4 b5 b6 b7 b8 r
    where "t = [b0, b1, b2, b3, b4, b5, b6, b7, b8] @ r"
  using assms by (auto simp: Suc_le_length_iff eval_nat_numeral)

lemma begin_rest:
  "\<exists>l. drop 5 (armor_line ''BEGIN'' kind) = l @ [10]
       \<and> 45 \<in> set l \<and> 10 \<notin> set l \<and> length l \<le> 65
       \<and> take 5 (armor_line ''BEGIN'' kind) = bytes_of ''-----''
       \<and> 5 \<le> length (armor_line ''BEGIN'' kind)"
  by (cases kind) (simp_all add: armor_line_def bytes_of_def)


lemma skip_line_ex:
  assumes "drop (offset f) (bytes f) = l @ 10 # rest" and "10 \<notin> set l" and "length l \<le> 65"
    and "45 \<in> set l \<or> 58 \<in> set l \<or> length l \<noteq> 64"
  shows "\<exists>line1 f1. dearmor_loop line f out = dearmor_loop line1 f1 out
           \<and> drop (offset f1) (bytes f1) = rest"
proof -
  let ?f1 = "f\<lparr>offset := offset f + length l + 1\<rparr>"
  have "drop (offset f) (bytes f) = (l @ [10]) @ rest" using assms(1) by simp
  from remaining_after [OF this] have "drop (offset ?f1) (bytes ?f1) = rest" by simp
  with dearmor_skip [OF assms, of line out] show ?thesis by blast
qed

lemma encode9:
  "\<exists>pre post. length pre = 4
     \<and> base64_encode (b0 # b1 # b2 # b3 # b4 # b5 # b6 # b7 # b8 # r) =
         pre @ [base64_char (drop_bit 2 b3), base64_char (push_bit 4 (b3 AND 3) OR drop_bit 4 b4),
                base64_char (push_bit 2 (b4 AND 15) OR drop_bit 6 b5), base64_char (b5 AND 63),
                base64_char (drop_bit 2 b6), base64_char (push_bit 4 (b6 AND 3) OR drop_bit 4 b7)]
           @ post"
proof -
  have "base64_encode (b0 # b1 # b2 # b3 # b4 # b5 # b6 # b7 # b8 # r) =
      [base64_char (drop_bit 2 b0), base64_char (push_bit 4 (b0 AND 3) OR drop_bit 4 b1),
       base64_char (push_bit 2 (b1 AND 15) OR drop_bit 6 b2), base64_char (b2 AND 63)]
      @ [base64_char (drop_bit 2 b3), base64_char (push_bit 4 (b3 AND 3) OR drop_bit 4 b4),
                base64_char (push_bit 2 (b4 AND 15) OR drop_bit 6 b5), base64_char (b5 AND 63),
                base64_char (drop_bit 2 b6), base64_char (push_bit 4 (b6 AND 3) OR drop_bit 4 b7)]
      @ ([base64_char (push_bit 2 (b7 AND 15) OR drop_bit 6 b8), base64_char (b8 AND 63)]
         @ base64_encode r)"
    by (simp only: base64_encode.simps append_Cons append_Nil)
  then show ?thesis
    by (intro exI [of _ "[base64_char (drop_bit 2 b0),
          base64_char (push_bit 4 (b0 AND 3) OR drop_bit 4 b1),
          base64_char (push_bit 2 (b1 AND 15) OR drop_bit 6 b2), base64_char (b2 AND 63)]"]
        exI [of _ "[base64_char (push_bit 2 (b7 AND 15) OR drop_bit 6 b8), base64_char (b8 AND 63)]
         @ base64_encode r"]) simp
qed

lemma decode_packet:
  assumes "48 \<le> length packet"
  shows "fst (snd (g_base64_decode_step
                     (take 6 (drop 4 (take 64 (base64_encode packet))) @ [61, 61]) 8 out 0 0))
           = take 4 (drop 3 packet) @ drop 4 out"
proof -
  from assms have "9 \<le> length packet" by simp
  then obtain b0 b1 b2 b3 b4 b5 b6 b7 b8 r
    where p: "packet = [b0, b1, b2, b3, b4, b5, b6, b7, b8] @ r"
    by (rule prefix9)
  define six where "six =
     [base64_char (drop_bit 2 b3), base64_char (push_bit 4 (b3 AND 3) OR drop_bit 4 b4),
      base64_char (push_bit 2 (b4 AND 15) OR drop_bit 6 b5), base64_char (b5 AND 63),
      base64_char (drop_bit 2 b6), base64_char (push_bit 4 (b6 AND 3) OR drop_bit 4 b7)]"
  obtain pre post where e: "length pre = 4" "base64_encode packet = pre @ six @ post"
    unfolding p six_def using encode9 [of b0 b1 b2 b3 b4 b5 b6 b7 b8 r]
    by (auto simp only: append_Cons append_Nil)
  have len: "length six = 6" by (simp add: six_def)
  have "take 6 (drop 4 (take 64 (base64_encode packet))) = six"
    unfolding e(2) using e(1) len by simp
  moreover have "take 4 (drop 3 packet) = [b3, b4, b5, b6]"
    unfolding p by simp
  moreover have "fst (snd (g_base64_decode_step (six @ [61, 61]) 8 out 0 0))
                   = [b3, b4, b5, b6] @ drop 4 out"
    unfolding six_def using decode_encoded [of b3 b4 b5 b6 b7 out]
    by (simp only: append_Cons append_Nil)
  ultimately show ?thesis by simp
qed


lemma fgets_bytes_full:
  "10 \<notin> set l \<Longrightarrow> length l = k \<Longrightarrow> fgets_bytes k (l @ rest) = l"
proof (induction l arbitrary: k)
  case Nil
  then show ?case by (cases rest) auto
next
  case (Cons a l)
  then show ?case by (cases k) auto
qed

lemma fgets_full:
  assumes "drop (offset f) (bytes f) = l @ rest" and "10 \<notin> set l" and "length l = 66"
  shows "fgets line 67 f = Some (l @ [0] @ drop 67 line, f\<lparr>offset := offset f + 66\<rparr>)"
proof -
  have "l \<noteq> []" using assms(3) by auto
  then show ?thesis
    using assms by (simp add: fgets_eq fgets_bytes_full)
qed

lemma full_not_qualifying:
  assumes "45 \<in> set l \<or> 58 \<in> set l" and "length l = 66"
  shows "\<not> qualifies (l @ [0] @ r)"
proof (cases "0 \<in> set l")
  case False
  then have "takeWhile (\<lambda>b. b \<noteq> 0) (l @ [0] @ r) = l"
    using takeWhile_nonzero [of l r] by simp
  then show ?thesis using assms(2) by (simp add: qualifies_def strlen_def)
next
  case True
  let ?t = "takeWhile (\<lambda>b. b \<noteq> 0) l"
  have tw: "takeWhile (\<lambda>b. b \<noteq> 0) (l @ [0] @ r) = ?t"
    using True by (auto simp: takeWhile_append1)
  show ?thesis
  proof (cases "length ?t = 65")
    case False
    then show ?thesis using tw by (simp add: qualifies_def strlen_def)
  next
    case len: True
    have l: "l = ?t @ dropWhile (\<lambda>b. b \<noteq> 0) l" by simp
    then have "length (dropWhile (\<lambda>b. b \<noteq> 0) l) = 1"
      using len assms(2) by (metis add_diff_cancel_left' length_append numeral_plus_one
          semiring_norm(5) semiring_norm(8) diff_add_inverse2 length_drop dropWhile_eq_drop)
    then obtain x where x: "dropWhile (\<lambda>b. b \<noteq> 0) l = [x]"
      by (cases "dropWhile (\<lambda>b. b \<noteq> 0) l") auto
    then have "x = 0" using hd_dropWhile [of "\<lambda>b. b \<noteq> 0" l] by auto
    with l x have "set l = set ?t \<union> {0}" by (metis list.set(1) list.simps(15) set_append Un_insert_right sup_bot.right_neutral insert_is_Un Un_commute)
    with assms(1) have "45 \<in> set ?t \<or> 58 \<in> set ?t" by auto
    then show ?thesis using tw by (auto simp: qualifies_def strchr_def)
  qed
qed

lemma skip_full_ex:
  assumes "drop (offset f) (bytes f) = l @ rest" and "10 \<notin> set l" and "length l = 66"
    and "45 \<in> set l \<or> 58 \<in> set l"
  shows "\<exists>line1 f1. dearmor_loop line f out = dearmor_loop line1 f1 out
           \<and> drop (offset f1) (bytes f1) = rest"
proof -
  let ?f1 = "f\<lparr>offset := offset f + length l\<rparr>"
  from remaining_after [OF assms(1)] have "drop (offset ?f1) (bytes ?f1) = rest" .
  moreover have "dearmor_loop line f out = dearmor_loop (l @ [0] @ drop 67 line) ?f1 out"
    using full_not_qualifying [OF assms(4,3)] assms(3)
    by (simp add: dearmor_loop_step [of line f out] fgets_full [OF assms(1-3)])
  ultimately show ?thesis by blast
qed

lemma skip_header_ex:
  assumes "drop (offset f) (bytes f) = h @ 10 # rest"
    and "58 \<in> set h" and "10 \<notin> set h" and "length h \<le> 66"
  shows "\<exists>line1 f1. dearmor_loop line f out = dearmor_loop line1 f1 out
           \<and> drop (offset f1) (bytes f1) = rest"
proof (cases "length h \<le> 65")
  case True
  from skip_line_ex [OF assms(1,3) True, of line out] assms(2) show ?thesis by simp
next
  case False
  with assms(4) have len: "length h = 66" by simp
  from skip_full_ex [OF assms(1,3) len, of line out] assms(2)
  obtain line1 f1 where s1: "dearmor_loop line f out = dearmor_loop line1 f1 out"
    and r1: "drop (offset f1) (bytes f1) = [] @ 10 # rest"
    by auto
  from skip_line_ex [OF r1, of line1 out]
  obtain line2 f2 where "dearmor_loop line1 f1 out = dearmor_loop line2 f2 out"
    and "drop (offset f2) (bytes f2) = rest"
    by auto
  with s1 show ?thesis by auto
qed

lemma skip_headers_ex:
  assumes "\<forall>h \<in> set hs. 58 \<in> set h \<and> 10 \<notin> set h \<and> length h \<le> 66"
    and "drop (offset f) (bytes f) = concat (map (\<lambda>h. h @ [10]) hs) @ rest"
  shows "\<exists>line1 f1. dearmor_loop line f out = dearmor_loop line1 f1 out
           \<and> drop (offset f1) (bytes f1) = rest"
  using assms
proof (induction hs arbitrary: f line)
  case Nil
  then show ?case by auto
next
  case (Cons h hs)
  have h: "58 \<in> set h" "10 \<notin> set h" "length h \<le> 66" using Cons.prems(1) by auto
  have r: "drop (offset f) (bytes f) = h @ 10 # (concat (map (\<lambda>h. h @ [10]) hs) @ rest)"
    using Cons.prems(2) by simp
  from skip_header_ex [OF r h, of line out]
  obtain line1 f1 where s1: "dearmor_loop line f out = dearmor_loop line1 f1 out"
    and r1: "drop (offset f1) (bytes f1) = concat (map (\<lambda>h. h @ [10]) hs) @ rest"
    by auto
  from Cons.IH [OF _ r1, of line1] Cons.prems(1)
  obtain line2 f2 where "dearmor_loop line1 f1 out = dearmor_loop line2 f2 out"
    and "drop (offset f2) (bytes f2) = rest"
    by auto
  with s1 show ?case by auto
qed


lemma armored_extract:
  assumes "48 \<le> length packet"
    and "\<forall>h \<in> set headers. 58 \<in> set h \<and> 10 \<notin> set h \<and> length h \<le> 66"
  shows "\<exists>f1. pgp_key_dearmor_extract_timestamp
                \<lparr>bytes = armor kind headers packet checksum, offset = 5, seekable = s\<rparr> out
              = Some (0, take 4 (drop 3 packet) @ drop 4 out, f1)"
proof -
  define E where "E = base64_encode packet"
  define T where "T = [61] @ checksum @ [10] @ armor_line ''END'' kind"
  define H where "H = concat (map (\<lambda>h. h @ [10]) headers)"
  let ?f0 = "\<lparr>bytes = armor kind headers packet checksum, offset = 5, seekable = s\<rparr>"
  from assms(1) have "3 * 16 \<le> length packet" by simp
  from encode_prefix [OF this] have E64: "64 \<le> length E"
    and Eok: "\<forall>c \<in> set (take 64 E). c \<notin> {0, 10, 45, 58, 61}"
    by (simp_all add: E_def)
  then have "E \<noteq> []" by auto
  then have W: "wrap64 E = take 64 E @ 10 # wrap64 (drop 64 E)" by (rule wrap64_first)
  obtain l0 where l0: "drop 5 (armor_line ''BEGIN'' kind) = l0 @ [10]"
    "45 \<in> set l0" "10 \<notin> set l0" "length l0 \<le> 65" "5 \<le> length (armor_line ''BEGIN'' kind)"
    using begin_rest [of kind] by blast
  have A: "armor kind headers packet checksum
             = armor_line ''BEGIN'' kind @ (H @ [10] @ wrap64 E @ T)"
    by (simp add: armor_def H_def E_def T_def)
  have r0: "drop (offset ?f0) (bytes ?f0) = l0 @ 10 # (H @ ([10] @ wrap64 E @ T))"
    using l0(1,5) by (simp add: A)
  from skip_line_ex [OF r0 l0(3,4), of "replicate 67 0" out] l0(2)
  obtain line1 f1 where s1: "dearmor_loop (replicate 67 0) ?f0 out = dearmor_loop line1 f1 out"
    and r1: "drop (offset f1) (bytes f1) = H @ ([10] @ wrap64 E @ T)"
    by blast
  from skip_headers_ex [OF assms(2) r1 [unfolded H_def], of line1 out]
  obtain line2 f2 where s2: "dearmor_loop line1 f1 out = dearmor_loop line2 f2 out"
    and r2: "drop (offset f2) (bytes f2) = [] @ 10 # (wrap64 E @ T)"
    by auto
  from skip_line_ex [OF r2, of line2 out]
  obtain line3 f3 where s3: "dearmor_loop line2 f2 out = dearmor_loop line3 f3 out"
    and r3: "drop (offset f3) (bytes f3) = take 64 E @ 10 # (wrap64 (drop 64 E) @ T)"
    by (auto simp: W)
  have len: "length (take 64 E) = 64" using E64 by simp
  have ok: "\<forall>c \<in> set (take 64 E). c \<notin> {0, 10, 45, 58}" using Eok by auto
  from dearmor_select [OF r3 len ok, of line3 out]
  have "dearmor_loop line3 f3 out
      = Some (0, take 4 (drop 3 packet) @ drop 4 out, f3\<lparr>offset := offset f3 + 65\<rparr>)"
    by (simp add: decode_packet [OF assms(1), folded E_def])
  with s1 s2 s3 show ?thesis
    by (auto simp: pgp_key_dearmor_extract_timestamp_def)
qed


lemma fgets_bytes_prefix: "fgets_bytes k bs = take (length (fgets_bytes k bs)) bs"
  by (induction k bs rule: fgets_bytes.induct) auto

lemma chunk_not_qualifying:
  assumes "45 \<in> set g \<or> 58 \<in> set g" and "length g \<le> 66"
  shows "\<not> qualifies (g @ [0] @ r)"
proof (cases "length g = 66")
  case True
  with assms(1) show ?thesis by (rule full_not_qualifying)
next
  case False
  with assms(2) have len: "length g \<le> 65" by simp
  show ?thesis
  proof (cases "0 \<in> set g")
    case True
    then have "takeWhile (\<lambda>b. b \<noteq> 0) (g @ [0] @ r) = takeWhile (\<lambda>b. b \<noteq> 0) g"
      by (auto simp: takeWhile_append1)
    moreover have "length (takeWhile (\<lambda>b. b \<noteq> 0) g) < length g"
      using True by (intro takeWhile_shorter [of 0]) auto
    ultimately show ?thesis
      using len by (simp add: qualifies_def strlen_def)
  next
    case False
    then have "takeWhile (\<lambda>b. b \<noteq> 0) (g @ [0] @ r) = g"
      using takeWhile_nonzero [of g r] by simp
    then show ?thesis
      using assms(1) by (auto simp: qualifies_def strchr_def)
  qed
qed

lemma fgets_marked_line:
  assumes "fgets line 67 f = Some (line1, f1)"
    and "45 \<in> set (take (offset f1 - offset f) (drop (offset f) (bytes f)))
         \<or> 58 \<in> set (take (offset f1 - offset f) (drop (offset f) (bytes f)))"
  shows "\<not> qualifies line1"
proof -
  let ?g = "fgets_bytes 66 (drop (offset f) (bytes f))"
  from assms(1) have l: "line1 = ?g @ [0] @ drop (length ?g + 1) line"
    and o: "offset f1 = offset f + length ?g"
    by (auto simp: fgets_eq split: if_splits)
  have "take (offset f1 - offset f) (drop (offset f) (bytes f)) = ?g"
    using fgets_bytes_prefix [of 66 "drop (offset f) (bytes f)"] o by simp
  with assms(2) have "45 \<in> set ?g \<or> 58 \<in> set ?g" by simp
  then show ?thesis
    unfolding l using fgets_bytes_le [of 66 "drop (offset f) (bytes f)"]
    by (rule chunk_not_qualifying)
qed


section \<open>The padding of the selected line\<close>

lemma dearmor_pad_eq:
  "length line = 67 \<Longrightarrow> dearmor_pad line = Some (line[4 + 6 := 61, 4 + 7 := 61, 4 + 8 := 0])"
  by (simp add: dearmor_pad_def store_def)


section \<open>Entries that the scan passes over\<close>




section \<open>Running the classifier again\<close>








section \<open>The renames of a scan\<close>





section \<open>The claims\<close>

text \<open>
  C10. Whenever \<open>fgets\<close> has delivered a line of string length 65 into the 67-byte
  buffer, the three assignments of the extractor succeed and change the buffer at indices
  10, 11 and 12 and nowhere else (\<open>dearmor_pad\<close>). The string then decoded starts at
  index 4 and has length 8: the decoder reads indices 4 to 11 and \<open>strlen\<close> stops at
  index 12. All these indices lie below the string length of the line, which is at most
  the number of characters that \<open>fgets\<close> read from the stream into the buffer. So what
  the extractor decodes is the six characters at indices 4 to 9 of the line and the two
  padding characters, and when the line holds no \<open>-\<close> and no \<open>:\<close> this is the result
  of the loop.
\<close>

theorem padding_within_line:
  assumes "length line = 67"
    and "fgets line 67 f = Some (line1, f1)"
    and "strlen line1 = 67 - 2"
  shows "length line1 = 67
       \<and> strlen line1 \<le> offset f1 - offset f
       \<and> 4 + 8 < strlen line1
       \<and> dearmor_pad line1 = Some (line1[4 + 6 := 61, 4 + 7 := 61, 4 + 8 := 0])
       \<and> strlen (drop 4 (line1[4 + 6 := 61, 4 + 7 := 61, 4 + 8 := 0])) = 8
       \<and> 4 + strlen (drop 4 (line1[4 + 6 := 61, 4 + 7 := 61, 4 + 8 := 0])) < strlen line1
       \<and> dearmor_decode line1 out
           = Some (fst (snd (g_base64_decode_step (take 6 (drop 4 line1) @ [61, 61]) 8 out 0 0)))
       \<and> (\<not> strchr line1 45 \<and> \<not> strchr line1 58 \<longrightarrow>
            dearmor_loop line f out
              = Some (0, fst (snd (g_base64_decode_step (take 6 (drop 4 line1) @ [61, 61])
                                     8 out 0 0)), f1))"
proof -
  have len: "length line1 = 67"
    using assms(2,1) by (rule fgets_length)
  have rd: "strlen line1 \<le> offset f1 - offset f"
    using assms(2) strlen_le_prefix
    by (auto simp: fgets_eq split: if_splits)
  have s65: "strlen line1 = 65" using assms(3) by simp
  note dq = dearmor_decode_qualifying [OF s65, of out]
  have st: "strlen (drop 4 (line1[4 + 6 := 61, 4 + 7 := 61, 4 + 8 := 0])) = 8"
    using dq by simp
  have lp: "\<not> strchr line1 45 \<and> \<not> strchr line1 58 \<longrightarrow>
            dearmor_loop line f out
              = Some (0, fst (snd (g_base64_decode_step (take 6 (drop 4 line1) @ [61, 61])
                                     8 out 0 0)), f1)"
    using dq assms(2) s65 by (simp add: dearmor_loop_step [of line f out] qualifies_def)
  show ?thesis
    using len rd s65 st dq lp dearmor_pad_eq [OF len] by simp
qed

theorem padding_within_line_witness:
  "length (replicate 67 (0 :: byte)) = 67
   \<and> fgets (replicate 67 0) 67 full_line_file
       = Some (bytes_of ''ABCDEFGHIJKLMNOPQRSTUVWXYZabcdefghijklmnopqrstuvwxyz0123456789+/''
                 @ [10, 0, 0],
               full_line_file\<lparr>offset := 65\<rparr>)
   \<and> strlen (bytes_of ''ABCDEFGHIJKLMNOPQRSTUVWXYZabcdefghijklmnopqrstuvwxyz0123456789+/''
                 @ [10, 0, 0]) = 67 - 2
   \<and> dearmor_pad (bytes_of ''ABCDEFGHIJKLMNOPQRSTUVWXYZabcdefghijklmnopqrstuvwxyz0123456789+/''
                 @ [10, 0, 0])
       = Some (bytes_of ''ABCDEFGHIJ'' @ [61, 61, 0]
                 @ bytes_of ''NOPQRSTUVWXYZabcdefghijklmnopqrstuvwxyz0123456789+/''
                 @ [10, 0, 0])
   \<and> dearmor_loop (replicate 67 0) full_line_file [0, 0, 0, 0]
       = Some (0, [16, 81, 135, 32], full_line_file\<lparr>offset := 65\<rparr>)"
proof -
  let ?l = "bytes_of ''ABCDEFGHIJKLMNOPQRSTUVWXYZabcdefghijklmnopqrstuvwxyz0123456789+/''
                 @ [10, 0, 0]"
  have a: "length (replicate 67 (0 :: byte)) = 67" by simp
  have b: "fgets (replicate 67 0) 67 full_line_file = Some (?l, full_line_file\<lparr>offset := 65\<rparr>)"
    by (simp add: fgets_def full_line_file_def bytes_of_def)
  have c: "strlen ?l = 67 - 2"
    by (simp add: strlen_def bytes_of_def)
  have d: "\<not> strchr ?l 45 \<and> \<not> strchr ?l 58"
    by (simp add: strchr_def bytes_of_def)
  have e: "fst (snd (g_base64_decode_step (take 6 (drop 4 ?l) @ [61, 61]) 8 [0, 0, 0, 0] 0 0))
             = [16, 81, 135, 32]"
    by (simp add: bytes_of_def g_base64_decode_step_def mime_base64_rank_def)
  have u: "?l[4 + 6 := 61, 4 + 7 := 61, 4 + 8 := 0]
             = bytes_of ''ABCDEFGHIJ'' @ [61, 61, 0]
                 @ bytes_of ''NOPQRSTUVWXYZabcdefghijklmnopqrstuvwxyz0123456789+/''
                 @ [10, 0, 0]"
    by (simp add: bytes_of_def)
  from padding_within_line [OF a b c, of "[0, 0, 0, 0]"] a b c d e u show ?thesis
    by simp
qed


text \<open>
  C5. The format detector inside \<open>pgp_key_extract_timestamp\<close> reads five bytes from
  offset 0 of the opened stream. With fewer than five bytes in the file the call fails
  with the read error. Otherwise the stream stands at offset 5, and the armored extractor
  runs if and only if the five bytes are \<open>-----\<close>; in every other case the raw
  extractor runs.
\<close>

theorem format_detector:
  assumes "fopen fs path = Some f"
  shows "pgp_key_extract_timestamp le fs path out =
     (if length (bytes f) < 5 then Some (1, out, [Failed_to_read path])
      else if take 5 (bytes f) = bytes_of ''-----'' then
        (case pgp_key_dearmor_extract_timestamp (f\<lparr>offset := 5\<rparr>) (store_uint le out) of
           None \<Rightarrow> None
         | Some (rc, out1, f2) \<Rightarrow>
             if rc \<noteq> 0 then Some (1, load_uint le out1, [Failed_dearmor path])
             else Some (0, ntohl le (load_uint le out1), []))
      else
        (case pgp_key_raw_extract_timestamp (f\<lparr>offset := 5\<rparr>) (store_uint le out) of
           (rc, out1, f2) \<Rightarrow>
             if rc \<noteq> 0 then Some (1, load_uint le out1, [Failed_raw path])
             else Some (0, ntohl le (load_uint le out1), [])))"
  using assms by (rule extract_dispatch)

theorem format_detector_witness:
  "fopen sample_fs ''src/short'' = Some \<lparr>bytes = [1, 2, 3], offset = 0, seekable = True\<rparr>
   \<and> pgp_key_extract_timestamp True sample_fs ''src/short'' 5
       = Some (1, 5, [Failed_to_read ''src/short''])
   \<and> fopen junk_fs ''junk.asc'' = Some \<lparr>bytes = junk_armor, offset = 0, seekable = True\<rparr>
   \<and> take 5 junk_armor = bytes_of ''-----''
   \<and> pgp_key_extract_timestamp False junk_fs ''junk.asc'' 5
       = (case pgp_key_dearmor_extract_timestamp
                 \<lparr>bytes = junk_armor, offset = 5, seekable = True\<rparr> (store_uint False 5) of
            None \<Rightarrow> None
          | Some (rc, out1, f2) \<Rightarrow>
             if rc \<noteq> 0 then Some (1, load_uint False out1, [Failed_dearmor ''junk.asc''])
             else Some (0, ntohl False (load_uint False out1), []))
   \<and> fopen sample_fs ''src/a.gpg'' = Some \<lparr>bytes = key_a, offset = 0, seekable = True\<rparr>
   \<and> take 5 key_a \<noteq> bytes_of ''-----''
   \<and> pgp_key_extract_timestamp False sample_fs ''src/a.gpg'' 5
       = (case pgp_key_raw_extract_timestamp
                 \<lparr>bytes = key_a, offset = 5, seekable = True\<rparr> (store_uint False 5) of
            (rc, out1, f2) \<Rightarrow>
             if rc \<noteq> 0 then Some (1, load_uint False out1, [Failed_raw ''src/a.gpg''])
             else Some (0, ntohl False (load_uint False out1), []))"
proof -
  have h: "fopen sample_fs ''src/short'' = Some \<lparr>bytes = [1, 2, 3], offset = 0, seekable = True\<rparr>"
    and a: "fopen sample_fs ''src/a.gpg'' = Some \<lparr>bytes = key_a, offset = 0, seekable = True\<rparr>"
    by (simp_all add: fopen_def sample_fs_def)
  have j: "fopen junk_fs ''junk.asc'' = Some \<lparr>bytes = junk_armor, offset = 0, seekable = True\<rparr>"
    by (simp add: fopen_def junk_fs_def)
  have d: "take 5 junk_armor = bytes_of ''-----''" "\<not> length junk_armor < 5"
    "take 5 key_a \<noteq> bytes_of ''-----''" "\<not> length key_a < 5"
    by (simp_all add: junk_armor_def key_a_def key_tail_def bytes_of_def)
  show ?thesis
    using h j a d format_detector [OF h, of True 5] format_detector [OF j, of False 5]
      format_detector [OF a, of False 5]
    by simp
qed

text \<open>
  C4. For a file whose first five bytes can be read and are not \<open>-----\<close>, the classifier
  takes the raw path: the raw extractor repositions the stream to offset 3 and reads four
  bytes, leaving it at offset 7, and the classifier returns those four bytes as a
  big-endian 32-bit number, whatever the byte order of the host. It fails exactly when
  the stream cannot be repositioned or fewer than four bytes follow offset 3.
\<close>

theorem raw_path:
  assumes "fopen fs path = Some f"
    and "5 \<le> length (bytes f)"
    and "take 5 (bytes f) \<noteq> bytes_of ''-----''"
  shows "(if seekable f \<and> 7 \<le> length (bytes f)
          then pgp_key_extract_timestamp le fs path out
                 = Some (0, load_be (take 4 (drop 3 (bytes f))), [])
               \<and> pgp_key_raw_extract_timestamp (f\<lparr>offset := 5\<rparr>) (store_uint le out)
                 = (0, take 4 (drop 3 (bytes f)), f\<lparr>offset := 7\<rparr>)
          else (\<exists>t. pgp_key_extract_timestamp le fs path out = Some (1, t, [Failed_raw path]))
               \<and> fst (pgp_key_raw_extract_timestamp (f\<lparr>offset := 5\<rparr>) (store_uint le out)) = 1)"
  using assms by (rule raw_classified)

theorem raw_path_witness:
  "fopen sample_fs ''src/a.gpg'' = Some \<lparr>bytes = key_a, offset = 0, seekable = True\<rparr>
   \<and> 5 \<le> length key_a
   \<and> take 5 key_a \<noteq> bytes_of ''-----''
   \<and> pgp_key_extract_timestamp True sample_fs ''src/a.gpg'' 0 = Some (0, 1700000000, [])
   \<and> pgp_key_extract_timestamp False sample_fs ''src/a.gpg'' 0 = Some (0, 1700000000, [])
   \<and> fopen sample_fs ''pipe'' = Some \<lparr>bytes = key_a, offset = 0, seekable = False\<rparr>
   \<and> (\<exists>t. pgp_key_extract_timestamp True sample_fs ''pipe'' 0 = Some (1, t, [Failed_raw ''pipe'']))"
proof -
  have h: "fopen sample_fs ''src/a.gpg'' = Some \<lparr>bytes = key_a, offset = 0, seekable = True\<rparr>"
    and p: "fopen sample_fs ''pipe'' = Some \<lparr>bytes = key_a, offset = 0, seekable = False\<rparr>"
    by (simp_all add: fopen_def sample_fs_def)
  have lp: "5 \<le> length (bytes \<lparr>bytes = key_a, offset = 0, seekable = False\<rparr>)"
    by (simp add: key_a_def key_tail_def)
  have dp: "take 5 (bytes \<lparr>bytes = key_a, offset = 0, seekable = False\<rparr>) \<noteq> bytes_of ''-----''"
    by (simp add: key_a_def key_tail_def bytes_of_def)
  have q: "\<exists>t. pgp_key_extract_timestamp True sample_fs ''pipe'' 0 = Some (1, t, [Failed_raw ''pipe''])"
    using raw_path [OF p lp dp, of True 0] by simp
  have l: "5 \<le> length (bytes \<lparr>bytes = key_a, offset = 0, seekable = True\<rparr>)"
    by (simp add: key_a_def key_tail_def)
  have d: "take 5 (bytes \<lparr>bytes = key_a, offset = 0, seekable = True\<rparr>) \<noteq> bytes_of ''-----''"
    by (simp add: key_a_def key_tail_def bytes_of_def)
  show ?thesis
    using h p q l d raw_path [OF h l d, of True 0] raw_path [OF h l d, of False 0]
    by (simp add: key_a_def key_tail_def load_be_def)
qed

text \<open>
  C9, as amended. \<open>main\<close> always returns, and its exit code is 1 exactly when the
  argument count is neither 2 nor 4, or, with four arguments, the extraction of the primary
  key's timestamp fails or the destination path buffer cannot be allocated, or the source
  directory cannot be opened, or the file path buffer cannot be allocated. In every other
  case the scan runs to completion and the exit code is 0, whatever happened to the
  single files.
\<close>

theorem exit_codes:
  "\<exists>out fs1. main m fs argv =
     Some (if length argv \<noteq> 2 \<and> length argv \<noteq> 4 then 1
           else if length argv = 4
                   \<and> (\<exists>t msgs. pgp_key_extract_timestamp (little_endian m) fs (argv ! 2)
                                   (uninit_timestamp_query m) = Some (1, t, msgs)) then 1
           else if length argv = 4 \<and> \<not> malloc_ok m (length (argv ! 3) + NAME_MAX + 1) then 1
           else if opendir fs (argv ! 1) = None then 1
           else if \<not> malloc_ok m (length (argv ! 1) + NAME_MAX + 1) then 1
           else 0,
           out, fs1)"
proof -
  obtain rc t msgs where c:
    "pgp_key_extract_timestamp (little_endian m) fs (argv ! 2) (uninit_timestamp_query m)
       = Some (rc, t, msgs)" "rc = 0 \<or> rc = 1"
    using classifier_total by blast
  show ?thesis
  proof (cases "length argv = 4")
    case True
    show ?thesis
    proof (cases "rc = 0")
      case rc: True
      show ?thesis
        using True c rc
          main_scan_code [of m fs "argv ! 1" "Some (t, argv ! 3)" "msgs @ [Primary_timestamp t]"]
        by (auto simp: main_def)
    next
      case False
      with c have "rc = 1" by simp
      with True c show ?thesis by (simp add: main_def)
    qed
  next
    case False
    then show ?thesis
      using main_scan_code [of m fs "argv ! 1" None "[]"]
      by (auto simp: main_def)
  qed
qed

theorem exit_codes_witness:
  "\<exists>out fs1. main sample_machine sample_fs [''prog'', ''src''] = Some (0, out, fs1)"
  using exit_codes [of sample_machine sample_fs "[''prog'', ''src'']"]
  by (simp add: opendir_def sample_fs_def sample_machine_def)

text \<open>
  C9 as stated fails: with two arguments (no usage error, no filter mode) and a source
  directory that cannot be opened, the exit code is 1.
\<close>

theorem exit_by_opendir_counterexample:
  "length [''prog'', ''nodir''] = 2
   \<and> main sample_machine sample_fs [''prog'', ''nodir'']
       = Some (1, [Cant_open_directory ''nodir''], sample_fs)"
  by (simp add: main_def main_scan_def opendir_def sample_fs_def)


text \<open>
  C6. In filter mode, when an entry is a non-empty regular file that is not hidden and the
  classifier succeeds on it with timestamp \<open>t\<close>, the scan calls \<open>rename\<close> from
  \<open>source/name\<close> to \<open>destination/name\<close> (the same base name) if and only if
  \<open>t\<close> is at least the primary key's timestamp (unsigned comparison; equality counts).
  A refused move leaves the file system as it was and is reported; in every case the scan
  goes on with the remaining entries.
\<close>

theorem filter_moves_compatible:
  assumes "file_path = src @ ''/'' @ take (NAME_MAX - 1) d"
    and "dest_file_path = dest @ ''/'' @ take (NAME_MAX - 1) d"
    and "nodes (fsys s) file_path = Some (Reg bs)" and "bs \<noteq> []" and "\<not> hidden d"
    and "pgp_key_extract_timestamp le (fsys s) file_path (timestamp s) = Some (0, t, msgs)"
  shows "scan le src (Some (q, dest)) (d # rest) s =
           scan le src (Some (q, dest)) rest
             (if q \<le> t then
                if (file_path, dest_file_path) \<in> unmovable (fsys s)
                     \<or> nodes (fsys s) dest_file_path = Some Dir
                then s\<lparr>printed := printed s @ [Opening file_path] @ msgs
                                     @ [Timestamp t, Moving file_path, Failed_to_move file_path],
                       timestamp := t\<rparr>
                else s\<lparr>fsys := (fsys s)\<lparr>nodes := (nodes (fsys s))
                                       (file_path := None, dest_file_path \<mapsto> Reg bs)\<rparr>,
                       printed := printed s @ [Opening file_path] @ msgs
                                     @ [Timestamp t, Moving file_path],
                       timestamp := t\<rparr>
              else s\<lparr>printed := printed s @ [Opening file_path] @ msgs @ [Timestamp t],
                     timestamp := t\<rparr>)"
proof -
  let ?s0 = "s\<lparr>printed := printed s @ [Opening file_path] @ msgs @ [Timestamp t],
                timestamp := t\<rparr>"
  have step: "scan le src (Some (q, dest)) (d # rest) s
                = scan le src (Some (q, dest)) rest
                    (move_compatible (Some (q, dest)) file_path d ?s0)"
    using assms by (simp add: scan_entry stat_Reg)
  have "move_compatible (Some (q, dest)) file_path d ?s0 =
          (if q \<le> t then
                if (file_path, dest_file_path) \<in> unmovable (fsys s)
                     \<or> nodes (fsys s) dest_file_path = Some Dir
                then s\<lparr>printed := printed s @ [Opening file_path] @ msgs
                                     @ [Timestamp t, Moving file_path, Failed_to_move file_path],
                       timestamp := t\<rparr>
                else s\<lparr>fsys := (fsys s)\<lparr>nodes := (nodes (fsys s))
                                       (file_path := None, dest_file_path \<mapsto> Reg bs)\<rparr>,
                       printed := printed s @ [Opening file_path] @ msgs
                                     @ [Timestamp t, Moving file_path],
                       timestamp := t\<rparr>
              else ?s0)"
    using assms(2,3) by (simp add: move_compatible_path rename_def)
  with step show ?thesis by simp
qed

theorem filter_moves_compatible_witness:
  "scan True ''src'' (Some (1700000000, ''dst'')) [''a.gpg''] sample_state
     = Some (sample_state
         \<lparr>fsys := sample_fs\<lparr>nodes := (nodes sample_fs)
                       (''src/a.gpg'' := None, ''dst/a.gpg'' \<mapsto> Reg key_a)\<rparr>,
           printed := [Opening ''src/a.gpg'', Timestamp 1700000000, Moving ''src/a.gpg''],
           timestamp := 1700000000\<rparr>)
   \<and> scan True ''src'' (Some (1700000000, ''dst'')) [''old.gpg''] sample_state
     = Some (sample_state
         \<lparr>printed := [Opening ''src/old.gpg'', Timestamp 1699999999],
           timestamp := 1699999999\<rparr>)
   \<and> scan True ''src'' (Some (1700000000, ''dst'')) [''c.gpg''] sample_state
     = Some (sample_state
         \<lparr>printed := [Opening ''src/c.gpg'', Timestamp 1700000001, Moving ''src/c.gpg'',
                       Failed_to_move ''src/c.gpg''],
           timestamp := 1700000001\<rparr>)"
proof -
  have a: "nodes (fsys sample_state) ''src/a.gpg'' = Some (Reg key_a)" "key_a \<noteq> []"
    and o: "nodes (fsys sample_state) ''src/old.gpg'' = Some (Reg key_old)" "key_old \<noteq> []"
    and c: "nodes (fsys sample_state) ''src/c.gpg'' = Some (Reg key_b)" "key_b \<noteq> []"
    by (simp_all add: sample_state_def sample_fs_def key_a_def key_old_def key_b_def)
  have ca: "pgp_key_extract_timestamp True (fsys sample_state) ''src/a.gpg'' (timestamp sample_state)
              = Some (0, 1700000000, [])"
    and co: "pgp_key_extract_timestamp True (fsys sample_state) ''src/old.gpg'' (timestamp sample_state)
              = Some (0, 1699999999, [])"
    and cc: "pgp_key_extract_timestamp True (fsys sample_state) ''src/c.gpg'' (timestamp sample_state)
              = Some (0, 1700000001, [])"
    by (simp_all add: sample_state_def sample_raw_keys)
  have pa: "''src/a.gpg'' = ''src'' @ ''/'' @ take (NAME_MAX - 1) ''a.gpg''"
           "''dst/a.gpg'' = ''dst'' @ ''/'' @ take (NAME_MAX - 1) ''a.gpg''"
    and po: "''src/old.gpg'' = ''src'' @ ''/'' @ take (NAME_MAX - 1) ''old.gpg''"
           "''dst/old.gpg'' = ''dst'' @ ''/'' @ take (NAME_MAX - 1) ''old.gpg''"
    and pc: "''src/c.gpg'' = ''src'' @ ''/'' @ take (NAME_MAX - 1) ''c.gpg''"
           "''dst/c.gpg'' = ''dst'' @ ''/'' @ take (NAME_MAX - 1) ''c.gpg''"
    by (simp_all add: NAME_MAX_def)
  have h: "\<not> hidden ''a.gpg''" "\<not> hidden ''old.gpg''" "\<not> hidden ''c.gpg''" by simp_all
  from filter_moves_compatible [OF pa a h(1) ca, of 1700000000 "[]"]
       filter_moves_compatible [OF po o h(2) co, of 1700000000 "[]"]
       filter_moves_compatible [OF pc c h(3) cc, of 1700000000 "[]"]
  show ?thesis
    by (simp add: sample_state_def sample_fs_def)
qed









text \<open>
  C2. The armored extractor returns what the first qualifying line of its input gives,
  where the lines are those that \<open>fgets\<close> delivers into the 67-byte buffer and a line
  qualifies when, as a string, it contains neither \<open>-\<close> nor \<open>:\<close> and its length is
  exactly 65. A line that contains \<open>-\<close> or \<open>:\<close> never qualifies, whatever its length,
  and not even when the character stands among the bytes that \<open>fgets\<close> read behind a
  NUL byte; the stream is left just after the selected line; and when no line qualifies
  before the input ends the extractor fails with result 1 and the buffer untouched.
\<close>

theorem first_qualifying_line:
  "pgp_key_dearmor_extract_timestamp f out =
     (case find (\<lambda>(l, f1). qualifies l) (fgets_lines (replicate 67 0) f) of
        None \<Rightarrow> Some (1, out, last (f # map snd (fgets_lines (replicate 67 0) f)))
      | Some (l, f1) \<Rightarrow> map_option (\<lambda>out1. (0, out1, f1)) (dearmor_decode l out))
   \<and> qualifies l = (\<not> strchr l 45 \<and> \<not> strchr l 58 \<and> strlen l = 65)
   \<and> (fgets line 67 g = Some (line1, g1)
        \<and> (45 \<in> set (take (offset g1 - offset g) (drop (offset g) (bytes g)))
           \<or> 58 \<in> set (take (offset g1 - offset g) (drop (offset g) (bytes g))))
        \<longrightarrow> \<not> qualifies line1)"
  using fgets_marked_line [of line g line1 g1]
  by (simp add: pgp_key_dearmor_extract_timestamp_def dearmor_loop_find qualifies_def)

theorem first_qualifying_line_witness:
  "strlen (bytes_of ''Comment: 0123456789012345678901234567890123456789012345678901234''
             @ [10, 0, 0]) = 65
   \<and> \<not> qualifies (bytes_of ''Comment: 0123456789012345678901234567890123456789012345678901234''
             @ [10, 0, 0])
   \<and> pgp_key_dearmor_extract_timestamp comment65_file [0, 0, 0, 0]
       = Some (0, [101, 83, 241, 1], comment65_file\<lparr>offset := 168\<rparr>)"
proof -
  have "pgp_key_dearmor_extract_timestamp comment65_file [0, 0, 0, 0]
       = Some (0, [101, 83, 241, 1], comment65_file\<lparr>offset := 168\<rparr>)"
    using first_qualifying_line [of comment65_file "[0, 0, 0, 0]"]
    by (simp add: comment65_file_def lines_eval dearmor_decode_def dearmor_pad_def store_def
          g_base64_decode_step_def mime_base64_rank_def)
  moreover have "strlen (bytes_of ''Comment: 0123456789012345678901234567890123456789012345678901234''
             @ [10, 0, 0]) = 65"
    by (simp add: strlen_def bytes_of_def)
  moreover have "\<not> qualifies (bytes_of ''Comment: 0123456789012345678901234567890123456789012345678901234''
             @ [10, 0, 0])"
    using first_qualifying_line [of comment65_file "[0, 0, 0, 0]"]
    by (simp add: qualifies_def strchr_def bytes_of_def)
  ultimately show ?thesis by simp
qed


text \<open>
  C3. On a selected line the extractor takes the six characters at offsets 4 to 9, pads
  them with \<open>==\<close> and stops reading (\<open>dearmor_decode_qualifying\<close>,
  \<open>dearmor_loop_find\<close>). That the decoder then writes exactly four bytes is what
  the program's comment states and the program does not check: on the armored file whose
  one long line is 64 dots, the line is selected, the decoder writes no byte, the
  extractor returns 0 with the buffer as it was, and the classifier reports success with
  the value its caller's variable held before, byte-swapped on a little-endian host.
\<close>

theorem junk_line_gives_stale_timestamp:
  "pgp_key_dearmor_extract_timestamp \<lparr>bytes = junk_armor, offset = 5, seekable = True\<rparr> out
     = Some (0, out, \<lparr>bytes = junk_armor, offset = 71, seekable = True\<rparr>)
   \<and> fst (g_base64_decode_step (bytes_of ''......=='') 8 out 0 0) = 0
   \<and> pgp_key_extract_timestamp le junk_fs ''junk.asc'' v = Some (0, ntohl le v, [])"
proof -
  have o: "fopen junk_fs ''junk.asc'' = Some \<lparr>bytes = junk_armor, offset = 0, seekable = True\<rparr>"
    by (simp add: fopen_def junk_fs_def)
  have five: "\<not> length junk_armor < 5" "take 5 junk_armor = bytes_of ''-----''"
    by (simp_all add: junk_armor_def bytes_of_def)
  have "pgp_key_extract_timestamp le junk_fs ''junk.asc'' v = Some (0, ntohl le v, [])"
    using five by (simp add: extract_dispatch [OF o] junk_dearmor load_store_uint)
  moreover have "fst (g_base64_decode_step (bytes_of ''......=='') 8 out 0 0) = 0"
    by (simp add: g_base64_decode_step_def mime_base64_rank_def bytes_of_def)
  ultimately show ?thesis using junk_dearmor by simp
qed

theorem junk_line_gives_stale_timestamp_witness:
  "pgp_key_dearmor_extract_timestamp \<lparr>bytes = junk_armor, offset = 5, seekable = True\<rparr>
       [1, 2, 3, 4]
     = Some (0, [1, 2, 3, 4], \<lparr>bytes = junk_armor, offset = 71, seekable = True\<rparr>)
   \<and> pgp_key_extract_timestamp True junk_fs ''junk.asc'' 0x01020304 = Some (0, 0x04030201, [])
   \<and> pgp_key_extract_timestamp False junk_fs ''junk.asc'' 0x01020304 = Some (0, 0x01020304, [])"
  using junk_line_gives_stale_timestamp [of "[1, 2, 3, 4]" True "0x01020304"]
    junk_line_gives_stale_timestamp [of "[1, 2, 3, 4]" False "0x01020304"]
  by (simp add: byte_order_eval)


text \<open>
  C1. Take a key packet of at least 48 bytes (so that its base64 text fills a line of 64
  characters; every version-4 key packet that holds a key does) and the armored text
  built from it: the \<open>BEGIN\<close> line, header lines of the form \<open>Key: Value\<close> with
  at most 66 characters, a blank line, the base64 text of the packet in lines of 64
  characters, the checksum line and the \<open>END\<close> line. On the armored stream, positioned
  after the five bytes the format detector has read, the armored extractor returns 0 and
  the same four timestamp bytes that the raw extractor returns on the packet itself:
  bytes 3 to 6 of the packet.
\<close>

theorem armored_equals_raw:
  assumes "48 \<le> length packet"
    and "\<forall>h \<in> set headers. 58 \<in> set h \<and> 10 \<notin> set h \<and> length h \<le> 66"
  shows "\<exists>f1 f2.
           pgp_key_dearmor_extract_timestamp
               \<lparr>bytes = armor kind headers packet checksum, offset = 5, seekable = s\<rparr> out
             = Some (0, take 4 (drop 3 packet) @ drop 4 out, f1)
         \<and> pgp_key_raw_extract_timestamp \<lparr>bytes = packet, offset = n, seekable = True\<rparr> out
             = (0, take 4 (drop 3 packet) @ drop 4 out, f2)"
  using armored_extract [OF assms, of kind checksum s out] assms(1)
  by (auto simp: raw_extract)

theorem armored_equals_raw_witness:
  "\<exists>f1 f2.
     pgp_key_dearmor_extract_timestamp
         \<lparr>bytes = armor Public [bytes_of ''Comment: sample''] key_b (bytes_of ''abcd''),
          offset = 5, seekable = True\<rparr> [0, 0, 0, 0]
       = Some (0, [0x65, 0x53, 0xF1, 0x01], f1)
   \<and> pgp_key_raw_extract_timestamp \<lparr>bytes = key_b, offset = 5, seekable = True\<rparr> [0, 0, 0, 0]
       = (0, [0x65, 0x53, 0xF1, 0x01], f2)"
proof -
  have a: "48 \<le> length key_b" by (simp add: key_b_def key_tail_def)
  have b: "\<forall>h \<in> set [bytes_of ''Comment: sample'']. 58 \<in> set h \<and> 10 \<notin> set h \<and> length h \<le> 66"
    by (simp add: bytes_of_def)
  have c: "take 4 (drop 3 key_b) @ drop 4 [0, 0, 0, 0] = [0x65, 0x53, 0xF1, 0x01]"
    by (simp add: key_b_def key_tail_def)
  from armored_equals_raw [OF a b, of Public "bytes_of ''abcd''" True "[0, 0, 0, 0]" 5]
  show ?thesis unfolding c .
qed


end
